theory Spec2Isabelle
  imports Main
begin

section \<open>Messages and the agent state\<close>

text \<open>
  The agent of \<^verbatim>\<open>agent.py\<close> is a two-node graph: \<^verbatim>\<open>llm_agent_node\<close> asks a chat
  model what to do next, \<^verbatim>\<open>tool_node\<close> runs the tools the model asked for, and
  \<^verbatim>\<open>route_agent\<close> decides after each answer of the model whether to run tools or to
  stop. The state of the graph is one list of messages.

  A tool call is the dictionary \<^verbatim>\<open>{'name': .., 'args': .., 'id': ..}\<close> that the chat model
  attaches to its answer. Every call has the three keys, with a dictionary of arguments
  and a string as id; \<^verbatim>\<open>tool_node\<close> reads the same three fields when a call is an object
  instead of a dictionary.
\<close>

datatype tool_call = ToolCall (tc_name: string) (tc_args: "(string \<times> string) list") (tc_id: string)

text \<open>
  The three kinds of message the program builds or receives. Only an \<^verbatim>\<open>AIMessage\<close> has
  the attribute \<^verbatim>\<open>tool_calls\<close>; a \<^verbatim>\<open>ToolMessage\<close> carries the id of the call it answers.
\<close>

datatype message =
    HumanMessage string
  | AIMessage string "tool_call list"
  | ToolMessage string string

fun content :: "message \<Rightarrow> string" where
  "content (HumanMessage c) = c"
| "content (AIMessage c tcs) = c"
| "content (ToolMessage c i) = c"

text \<open>\<^verbatim>\<open>hasattr(m, 'tool_calls')\<close> and the attribute's value: \<open>None\<close> when the attribute is absent.\<close>

fun tool_calls_attr :: "message \<Rightarrow> tool_call list option" where
  "tool_calls_attr (AIMessage c tcs) = Some tcs"
| "tool_calls_attr (HumanMessage c) = None"
| "tool_calls_attr (ToolMessage c i) = None"

fun tool_call_id_attr :: "message \<Rightarrow> string option" where
  "tool_call_id_attr (ToolMessage c i) = Some i"
| "tool_call_id_attr (HumanMessage c) = None"
| "tool_call_id_attr (AIMessage c tcs) = None"

fun is_AIMessage :: "message \<Rightarrow> bool" where
  "is_AIMessage (AIMessage c tcs) = True"
| "is_AIMessage (HumanMessage c) = False"
| "is_AIMessage (ToolMessage c i) = False"

fun is_ToolMessage :: "message \<Rightarrow> bool" where
  "is_ToolMessage (ToolMessage c i) = True"
| "is_ToolMessage (HumanMessage c) = False"
| "is_ToolMessage (AIMessage c tcs) = False"

text \<open>
  \<^verbatim>\<open>AgentState\<close> has the single key \<^verbatim>\<open>messages\<close>, annotated with the reducer
  \<^verbatim>\<open>lambda x, y: x + y\<close>: the graph merges what a node returns into the state with it.
\<close>

type_synonym AgentState = "message list"

definition add_messages :: "message list \<Rightarrow> message list \<Rightarrow> message list" where
  "add_messages x y = x @ y"

section \<open>The collaborators outside the program\<close>

text \<open>
  Exceptions are values. \<open>IndexError\<close> and \<open>AttributeError\<close> are what Python raises for
  \<^verbatim>\<open>[][-1]\<close> and for a missing attribute, \<open>GraphRecursionError\<close> is what the graph
  runtime raises when a run takes more steps than its recursion limit, and \<open>Raised s\<close> is
  an exception of a collaborator whose \<^verbatim>\<open>str\<close> is \<open>s\<close>.
\<close>

datatype error = IndexError | AttributeError | GraphRecursionError | Raised string

text \<open>
  The chat model, the two tools, the prebuilt \<^verbatim>\<open>ToolNode(tools)\<close> and the recursion limit
  of the graph runtime are not code of the program: they are parameters. Each call may
  depend on and change the world outside (a remote service, the network), so every
  collaborator takes a world \<open>'w\<close> and returns the next one.
  \<^item> \<open>llm_with_tools\<close> answers a list of messages with the content and the tool calls of
    one \<^verbatim>\<open>AIMessage\<close>, or raises;
  \<^item> a tool answers a tool call with \<open>Inr\<close> of its stringified output (\<^verbatim>\<open>str(output)\<close>) or
    with \<open>Inl\<close> of the \<^verbatim>\<open>str\<close> of the exception it raised;
  \<^item> \<open>tool_node_fallback\<close> is \<^verbatim>\<open>ToolNode(tools).invoke\<close>, applied to the whole state;
  \<^item> \<open>recursion_limit\<close> is the number of node executions a run may take.
\<close>

record 'w env =
  llm_with_tools :: "'w \<Rightarrow> message list \<Rightarrow> (error + string \<times> tool_call list) \<times> 'w"
  wikipedia_tool :: "'w \<Rightarrow> tool_call \<Rightarrow> (string + string) \<times> 'w"
  duckduckgo_tool :: "'w \<Rightarrow> tool_call \<Rightarrow> (string + string) \<times> 'w"
  tool_node_fallback :: "'w \<Rightarrow> AgentState \<Rightarrow> (error + message list) \<times> 'w"
  recursion_limit :: nat

section \<open>The nodes\<close>

definition nl :: string where
  "nl = [CHR 0x0A]"

definition system_prompt :: string where
  "system_prompt =
     ''You are a research assistant with access to search tools. '' @ nl @
     nl @
     ''Available tools:'' @ nl @
     ''- Wikipedia: Use for encyclopedic information, definitions, historical facts, scientific concepts'' @ nl @
     ''- DuckDuckGo Search: Use for current events, recent news, company updates, breaking news, anything from 2023-2024'' @ nl @
     nl @
     ''ALWAYS use the appropriate search tool when asked about:'' @ nl @
     ''- Current events or recent news'' @ nl @
     ''- Company updates or developments  '' @ nl @
     ''- Recent developments in technology'' @ nl @
     ''- What happened in specific years (especially 2023-2024)'' @ nl @
     ''- Any factual information you'' @ [CHR 0x27] @ ''re not certain about'' @ nl @
     nl @
     ''Choose the most appropriate tool based on the question type.''"

definition system_message :: message where
  "system_message = HumanMessage system_prompt"

text \<open>
  \<^verbatim>\<open>llm_agent_node\<close>: the messages of the state, with the system message in front when
  there is exactly one of them, go to the chat model; the node returns the one answer.
\<close>

definition llm_input :: "AgentState \<Rightarrow> message list" where
  "llm_input messages = (if length messages = 1 then [system_message] @ messages else messages)"

definition llm_agent_node :: "'w env \<Rightarrow> 'w \<Rightarrow> AgentState \<Rightarrow> (error + message list) \<times> 'w" where
  "llm_agent_node env w state =
     (case llm_with_tools env w (llm_input state) of
        (Inl e, w') \<Rightarrow> (Inl e, w')
      | (Inr (c, tcs), w') \<Rightarrow> (Inr [AIMessage c tcs], w'))"

text \<open>
  \<^verbatim>\<open>tool_node\<close>. The executor chosen for a tool name (\<open>None\<close> is the \<^verbatim>\<open>else\<close> branch, the
  fallback) and the source line added to a successful output.
\<close>

definition tool_executor :: "'w env \<Rightarrow> string \<Rightarrow> ('w \<Rightarrow> tool_call \<Rightarrow> (string + string) \<times> 'w) option" where
  "tool_executor env tool_name =
     (if tool_name = ''wikipedia'' then Some (wikipedia_tool env)
      else if tool_name = ''duckduckgo_search'' then Some (duckduckgo_tool env)
      else None)"

definition source_info :: "string \<Rightarrow> string" where
  "source_info tool_name =
     (if tool_name = ''wikipedia'' then nl @ nl @ ''Source: Wikipedia''
      else if tool_name = ''duckduckgo_search'' then nl @ nl @ ''Source: Web Search (DuckDuckGo)''
      else nl @ nl @ ''Source: '' @ tool_name)"

text \<open>
  The \<^verbatim>\<open>for tool_call in tool_calls\<close> loop, with \<open>tool_outputs\<close> as its accumulator. A
  name that is neither of the two tools leaves the loop and the function at once with
  what the fallback returns for the whole state; \<open>tool_outputs\<close> is dropped there. The
  \<^verbatim>\<open>try\<close> turns an exception of the tool into a \<^verbatim>\<open>ToolMessage\<close> with the content
  \<^verbatim>\<open>f"Error: {e}"\<close>. (What the node prints is not modelled.)
\<close>

fun tool_loop :: "'w env \<Rightarrow> 'w \<Rightarrow> AgentState \<Rightarrow> tool_call list \<Rightarrow> message list \<Rightarrow> (error + message list) \<times> 'w" where
  "tool_loop env w state [] tool_outputs = (Inr tool_outputs, w)"
| "tool_loop env w state (tool_call # rest) tool_outputs =
     (let tool_name = tc_name tool_call; tool_id = tc_id tool_call in
      case tool_executor env tool_name of
        None \<Rightarrow> tool_node_fallback env w state
      | Some invoke \<Rightarrow>
          (case invoke w tool_call of
             (Inr output, w') \<Rightarrow>
               tool_loop env w' state rest
                 (tool_outputs @ [ToolMessage (output @ source_info tool_name) tool_id])
           | (Inl e, w') \<Rightarrow>
               tool_loop env w' state rest
                 (tool_outputs @ [ToolMessage (''Error: '' @ e) tool_id])))"

definition tool_node :: "'w env \<Rightarrow> 'w \<Rightarrow> AgentState \<Rightarrow> (error + message list) \<times> 'w" where
  "tool_node env w state =
     (case state of
        [] \<Rightarrow> (Inl IndexError, w)
      | _ # _ \<Rightarrow>
          (case tool_calls_attr (last state) of
             None \<Rightarrow> (Inl AttributeError, w)
           | Some tool_calls \<Rightarrow> tool_loop env w state tool_calls []))"

text \<open>\<^verbatim>\<open>route_agent\<close>: the name of the next node, or \<^verbatim>\<open>END\<close>.\<close>

datatype route = To_tool_node | END

definition route_agent :: "AgentState \<Rightarrow> error + route" where
  "route_agent state =
     (case state of
        [] \<Rightarrow> Inl IndexError
      | _ # _ \<Rightarrow>
          (case tool_calls_attr (last state) of
             Some tool_calls \<Rightarrow> if tool_calls \<noteq> [] then Inr To_tool_node else Inr END
           | None \<Rightarrow> Inr END))"

section \<open>The graph\<close>

text \<open>
  The workflow has the two nodes, the entry point \<^verbatim>\<open>llm_agent_node\<close>, the conditional
  edge from \<^verbatim>\<open>llm_agent_node\<close> through \<^verbatim>\<open>route_agent\<close> and the edge from \<^verbatim>\<open>tool_node\<close>
  back to \<^verbatim>\<open>llm_agent_node\<close>.
\<close>

datatype node = Llm_agent_node | Tool_node

definition entry_point :: node where
  "entry_point = Llm_agent_node"

fun run_node :: "'w env \<Rightarrow> node \<Rightarrow> 'w \<Rightarrow> AgentState \<Rightarrow> (error + message list) \<times> 'w" where
  "run_node env Llm_agent_node w state = llm_agent_node env w state"
| "run_node env Tool_node w state = tool_node env w state"

fun next_node :: "node \<Rightarrow> AgentState \<Rightarrow> error + node option" where
  "next_node Llm_agent_node state =
     (case route_agent state of
        Inl e \<Rightarrow> Inl e
      | Inr To_tool_node \<Rightarrow> Inr (Some Tool_node)
      | Inr END \<Rightarrow> Inr None)"
| "next_node Tool_node state = Inr (Some Llm_agent_node)"

text \<open>
  One step of the compiled graph \<^verbatim>\<open>app\<close>: the node runs on the state, the reducer merges
  what it returns into the state, and the edges give the next node on the new state. A
  step is recorded as the node, what it returned, and the state after it.
\<close>

type_synonym step = "node \<times> message list \<times> AgentState"

text \<open>
  A run of \<^verbatim>\<open>app\<close> from a node and a state, with the number of node executions it may
  still take: the steps it made, how it ended (\<open>Inr\<close> of the final state, \<open>Inl\<close> of the
  exception raised) and the world after it. A run that still has a node to execute
  when no execution is left ends with \<open>GraphRecursionError\<close>.
\<close>

fun app_run :: "'w env \<Rightarrow> nat \<Rightarrow> node \<Rightarrow> 'w \<Rightarrow> AgentState \<Rightarrow> (step list \<times> (error + AgentState)) \<times> 'w" where
  "app_run env 0 n w state = (([], Inl GraphRecursionError), w)"
| "app_run env (Suc k) n w state =
     (case run_node env n w state of
        (Inl e, w') \<Rightarrow> (([], Inl e), w')
      | (Inr update, w') \<Rightarrow>
          (let state' = add_messages state update in
           case next_node n state' of
             Inl e \<Rightarrow> (([(n, update, state')], Inl e), w')
           | Inr None \<Rightarrow> (([(n, update, state')], Inr state'), w')
           | Inr (Some n') \<Rightarrow>
               (case app_run env k n' w' state' of
                  ((steps, r), w'') \<Rightarrow> (((n, update, state') # steps, r), w''))))"

text \<open>\<^verbatim>\<open>app.invoke(initial_state)\<close>: a whole run from the entry point; its final state.\<close>

definition app_invoke :: "'w env \<Rightarrow> 'w \<Rightarrow> AgentState \<Rightarrow> (error + AgentState) \<times> 'w" where
  "app_invoke env w initial_state =
     (case app_run env (recursion_limit env) entry_point w initial_state of
        ((steps, r), w') \<Rightarrow> (r, w'))"

section \<open>Running the agent\<close>

text \<open>
  What the two entry points print, as far as the properties below need it: the progress line of
  a step, the warning of the step limit, the final answer or the error that replaced
  it, and for the verbose variant the update of a step and the final response. (The
  headline with the question and the separator lines are left out.)
\<close>

datatype printed =
    Step nat node
  | MaxStepsWarning
  | Answer string
  | ErrorGettingFinalAnswer error
  | Update node "message list"
  | FinalResponse string

definition max_steps :: nat where
  "max_steps = 10"

definition initial_state :: "string \<Rightarrow> AgentState" where
  "initial_state query = [HumanMessage query]"

text \<open>
  The loop \<^verbatim>\<open>for s in app.stream(initial_state)\<close> of \<^verbatim>\<open>run_research_agent\<close>. The stream
  is lazy: a node runs when the loop asks for the next event, so the generator and its
  consumer advance together. After each event the loop prints the progress line, adds
  one to \<open>step_count\<close> and breaks, with the warning, when \<open>step_count\<close> is above
  \<open>max_steps\<close>. The result is what was printed, the exception that left the loop (if
  any) and the world. (An event \<^verbatim>\<open>__end__\<close> is skipped by the loop and not modelled.)
\<close>

fun stream_loop :: "'w env \<Rightarrow> nat \<Rightarrow> node \<Rightarrow> 'w \<Rightarrow> AgentState \<Rightarrow> nat \<Rightarrow> (printed list \<times> error option) \<times> 'w" where
  "stream_loop env 0 n w state step_count = (([], Some GraphRecursionError), w)"
| "stream_loop env (Suc k) n w state step_count =
     (case run_node env n w state of
        (Inl e, w') \<Rightarrow> (([], Some e), w')
      | (Inr update, w') \<Rightarrow>
          (let state' = add_messages state update;
               step_count' = step_count + 1 in
           if step_count' > max_steps then (([Step step_count n, MaxStepsWarning], None), w')
           else
             case next_node n state' of
               Inl e \<Rightarrow> (([Step step_count n], Some e), w')
             | Inr None \<Rightarrow> (([Step step_count n], None), w')
             | Inr (Some n') \<Rightarrow>
                 (case stream_loop env k n' w' state' step_count' of
                    ((outs, r), w'') \<Rightarrow> ((Step step_count n # outs, r), w''))))"

text \<open>
  \<^verbatim>\<open>run_research_agent\<close>: the streamed pass, then a second run of the graph from the
  same initial state with \<^verbatim>\<open>app.invoke\<close>, inside \<^verbatim>\<open>try\<close>. The function returns nothing;
  its result here is what it printed, the exception that escaped it (if any), and the
  world.
\<close>

definition run_research_agent :: "'w env \<Rightarrow> 'w \<Rightarrow> string \<Rightarrow> (printed list \<times> error option) \<times> 'w" where
  "run_research_agent env w query =
     (case stream_loop env (recursion_limit env) entry_point w (initial_state query) 1 of
        ((outs, Some e), w1) \<Rightarrow> ((outs, Some e), w1)
      | ((outs, None), w1) \<Rightarrow>
          (case app_invoke env w1 (initial_state query) of
             (Inl e, w2) \<Rightarrow> ((outs @ [ErrorGettingFinalAnswer e], None), w2)
           | (Inr final_state, w2) \<Rightarrow>
               (case final_state of
                  [] \<Rightarrow> ((outs @ [ErrorGettingFinalAnswer IndexError], None), w2)
                | _ # _ \<Rightarrow> ((outs @ [Answer (content (last final_state))], None), w2))))"

text \<open>
  The loop of \<^verbatim>\<open>run_research_agent_verbose\<close> prints every event and never breaks;
  the second run is not inside a \<^verbatim>\<open>try\<close>.
\<close>

fun stream_loop_verbose :: "'w env \<Rightarrow> nat \<Rightarrow> node \<Rightarrow> 'w \<Rightarrow> AgentState \<Rightarrow> (printed list \<times> error option) \<times> 'w" where
  "stream_loop_verbose env 0 n w state = (([], Some GraphRecursionError), w)"
| "stream_loop_verbose env (Suc k) n w state =
     (case run_node env n w state of
        (Inl e, w') \<Rightarrow> (([], Some e), w')
      | (Inr update, w') \<Rightarrow>
          (let state' = add_messages state update in
           case next_node n state' of
             Inl e \<Rightarrow> (([Update n update], Some e), w')
           | Inr None \<Rightarrow> (([Update n update], None), w')
           | Inr (Some n') \<Rightarrow>
               (case stream_loop_verbose env k n' w' state' of
                  ((outs, r), w'') \<Rightarrow> ((Update n update # outs, r), w''))))"

definition run_research_agent_verbose :: "'w env \<Rightarrow> 'w \<Rightarrow> string \<Rightarrow> (printed list \<times> error option) \<times> 'w" where
  "run_research_agent_verbose env w query =
     (case stream_loop_verbose env (recursion_limit env) entry_point w (initial_state query) of
        ((outs, Some e), w1) \<Rightarrow> ((outs, Some e), w1)
      | ((outs, None), w1) \<Rightarrow>
          (case app_invoke env w1 (initial_state query) of
             (Inl e, w2) \<Rightarrow> ((outs, Some e), w2)
           | (Inr final_state, w2) \<Rightarrow>
               (case final_state of
                  [] \<Rightarrow> ((outs, Some IndexError), w2)
                | _ # _ \<Rightarrow> ((outs @ [FinalResponse (content (last final_state))], None), w2))))"

section \<open>Notions used to state the properties\<close>

text \<open>The tool names \<^verbatim>\<open>tool_node\<close> handles itself.\<close>

definition registered :: "string \<Rightarrow> bool" where
  "registered tool_name \<longleftrightarrow> tool_name = ''wikipedia'' \<or> tool_name = ''duckduckgo_search''"

text \<open>
  What the tools answer when the calls of a batch are invoked one after the other, each
  in the world its predecessor left, up to the first name that is not registered; and
  the world after the last of these invocations.
\<close>

fun invocations :: "'w env \<Rightarrow> 'w \<Rightarrow> tool_call list \<Rightarrow> (string + string) list \<times> 'w" where
  "invocations env w [] = ([], w)"
| "invocations env w (c # cs) =
     (case tool_executor env (tc_name c) of
        None \<Rightarrow> ([], w)
      | Some invoke \<Rightarrow>
          (case invoke w c of
             (r, w') \<Rightarrow> (case invocations env w' cs of (rs, w'') \<Rightarrow> (r # rs, w''))))"

text \<open>The result expected for a call, given what its tool answered.\<close>

fun expected_result :: "tool_call \<Rightarrow> string + string \<Rightarrow> message" where
  "expected_result c (Inr out) = ToolMessage (out @ source_info (tc_name c)) (tc_id c)"
| "expected_result c (Inl e) = ToolMessage (''Error: '' @ e) (tc_id c)"

text \<open>The ids of the requests of a batch, and the ids the results of a batch answer.\<close>

definition request_ids :: "tool_call list \<Rightarrow> string option list" where
  "request_ids tcs = map (\<lambda>c. Some (tc_id c)) tcs"

definition result_ids :: "message list \<Rightarrow> string option list" where
  "result_ids ms = map tool_call_id_attr ms"

text \<open>
  The contract between \<^verbatim>\<open>tool_node\<close> and the prebuilt node it falls back to: on a state
  that ends with an \<^verbatim>\<open>AIMessage\<close>, the fallback returns, without raising, one \<^verbatim>\<open>ToolMessage\<close>
  for each tool call of that message, in the order of the calls and with their ids.
\<close>

definition one_result_per_request :: "'w env \<Rightarrow> bool" where
  "one_result_per_request env \<longleftrightarrow>
     (\<forall>w state c tcs. state \<noteq> [] \<and> last state = AIMessage c tcs \<longrightarrow>
        (\<exists>ms w'. tool_node_fallback env w state = (Inr ms, w') \<and> result_ids ms = request_ids tcs))"

text \<open>
  A chat model that always asks for tools that are registered, and never answers or
  raises.
\<close>

definition always_requests_tool :: "'w env \<Rightarrow> bool" where
  "always_requests_tool env \<longleftrightarrow>
     (\<forall>w ms. \<exists>c tcs w'. llm_with_tools env w ms = (Inr (c, tcs), w') \<and> tcs \<noteq> [] \<and>
        list_all (\<lambda>t. registered (tc_name t)) tcs)"

text \<open>
  The steps of a run keep the state append-only: each step's state is the state before
  it followed by what the node returned, which is not empty and is one \<^verbatim>\<open>AIMessage\<close>
  for \<^verbatim>\<open>llm_agent_node\<close> and only \<^verbatim>\<open>ToolMessage\<close>s for \<^verbatim>\<open>tool_node\<close>.
\<close>

fun appended_kind :: "node \<Rightarrow> message list \<Rightarrow> bool" where
  "appended_kind Llm_agent_node update = (length update = 1 \<and> list_all is_AIMessage update)"
| "appended_kind Tool_node update = (update \<noteq> [] \<and> list_all is_ToolMessage update)"

fun append_only :: "AgentState \<Rightarrow> step list \<Rightarrow> bool" where
  "append_only state [] = True"
| "append_only state ((n, update, state') # steps) =
     (state' = state @ update \<and> length state < length state' \<and> appended_kind n update \<and>
      append_only state' steps)"

text \<open>The state a run has reached after its steps.\<close>

fun state_after :: "AgentState \<Rightarrow> step list \<Rightarrow> AgentState" where
  "state_after state [] = state"
| "state_after state ((n, update, state') # steps) = state_after state' steps"

text \<open>
  When \<^verbatim>\<open>tool_node\<close> is the node to run, the state ends with an \<^verbatim>\<open>AIMessage\<close> that has
  tool calls: the edges of the graph lead to \<^verbatim>\<open>tool_node\<close> from nowhere else.
\<close>

definition tool_ready :: "node \<Rightarrow> AgentState \<Rightarrow> bool" where
  "tool_ready n state \<longleftrightarrow>
     (n = Tool_node \<longrightarrow> state \<noteq> [] \<and> (\<exists>c tcs. last state = AIMessage c tcs \<and> tcs \<noteq> []))"

text \<open>The same, for tool calls that all name registered tools.\<close>

definition registered_ready :: "node \<Rightarrow> AgentState \<Rightarrow> bool" where
  "registered_ready n state \<longleftrightarrow>
     (n = Tool_node \<longrightarrow> state \<noteq> [] \<and>
        (\<exists>c tcs. last state = AIMessage c tcs \<and> list_all (\<lambda>t. registered (tc_name t)) tcs))"

text \<open>
  The progress lines of a run that alternates between the two nodes, from a step count
  and a node on, for a number of steps, with the warning of the step limit at the end.
\<close>

fun alternate :: "node \<Rightarrow> node" where
  "alternate Llm_agent_node = Tool_node"
| "alternate Tool_node = Llm_agent_node"

fun steps_until_limit :: "nat \<Rightarrow> nat \<Rightarrow> node \<Rightarrow> printed list" where
  "steps_until_limit 0 step_count n = [MaxStepsWarning]"
| "steps_until_limit (Suc r) step_count n = Step step_count n # steps_until_limit r (Suc step_count) (alternate n)"

text \<open>The exception with which a run ended, if it ended with one.\<close>

fun raised :: "error + AgentState \<Rightarrow> error option" where
  "raised (Inl e) = Some e"
| "raised (Inr final) = None"

text \<open>
  The final answer an entry point reported, if its last printed line is one; and the
  answer of the streamed run, the content of the last message of the last update that
  the verbose variant printed.
\<close>

fun reported :: "printed \<Rightarrow> string option" where
  "reported (Answer c) = Some c"
| "reported (FinalResponse c) = Some c"
| "reported (Step k n) = None"
| "reported MaxStepsWarning = None"
| "reported (ErrorGettingFinalAnswer e) = None"
| "reported (Update n update) = None"

definition final_answer :: "printed list \<Rightarrow> string option" where
  "final_answer outs = (case rev outs of [] \<Rightarrow> None | p # _ \<Rightarrow> reported p)"

fun streamed :: "printed \<Rightarrow> message list" where
  "streamed (Update n update) = update"
| "streamed (Answer c) = []"
| "streamed (FinalResponse c) = []"
| "streamed (Step k n) = []"
| "streamed MaxStepsWarning = []"
| "streamed (ErrorGettingFinalAnswer e) = []"

definition streamed_answer :: "printed list \<Rightarrow> string option" where
  "streamed_answer outs =
     (case rev (concat (map streamed outs)) of [] \<Rightarrow> None | m # _ \<Rightarrow> Some (content m))"

text \<open>The event \<^verbatim>\<open>{node_name: update}\<close> the verbose variant prints for a step.\<close>

fun notification :: "step \<Rightarrow> printed" where
  "notification (n, update, state') = Update n update"

section \<open>The generic dispatch path\<close>

text \<open>
  Modelled from the spec: the generic dispatch path that \<^verbatim>\<open>tool_node\<close> falls back to, the
  prebuilt \<^verbatim>\<open>ToolNode(tools)\<close> of the graph library, whose code is not part of the
  repository. After sections 4.2 and 7 of the specification every request yields exactly
  one result, success or failure, correlated by the id of the request and in the order
  of the requests; a request that names an unregistered tool is degraded to a result
  whose content describes the error; a registered capability is executed, and its
  failure becomes an error description as well.
\<close>

fun generic_dispatch :: "'w env \<Rightarrow> 'w \<Rightarrow> tool_call list \<Rightarrow> message list \<times> 'w" where
  "generic_dispatch env w [] = ([], w)"
| "generic_dispatch env w (c # cs) =
     (case tool_executor env (tc_name c) of
        None \<Rightarrow>
          (case generic_dispatch env w cs of
             (ms, w') \<Rightarrow> (ToolMessage (''Error: '' @ tc_name c @ '' is not a valid tool'') (tc_id c) # ms, w'))
      | Some invoke \<Rightarrow>
          (case invoke w c of
             (Inr out, w1) \<Rightarrow>
               (case generic_dispatch env w1 cs of (ms, w') \<Rightarrow> (ToolMessage out (tc_id c) # ms, w'))
           | (Inl e, w1) \<Rightarrow>
               (case generic_dispatch env w1 cs of
                  (ms, w') \<Rightarrow> (ToolMessage (''Error: '' @ e) (tc_id c) # ms, w'))))"

definition generic_tool_node :: "'w env \<Rightarrow> 'w \<Rightarrow> AgentState \<Rightarrow> (error + message list) \<times> 'w" where
  "generic_tool_node env w state =
     (case state of
        [] \<Rightarrow> (Inl (Raised ''No message found in input''), w)
      | _ # _ \<Rightarrow>
          (case tool_calls_attr (last state) of
             None \<Rightarrow> (Inl (Raised ''Last message is not an AIMessage''), w)
           | Some tcs \<Rightarrow> (case generic_dispatch env w tcs of (ms, w') \<Rightarrow> (Inr ms, w'))))"

definition with_generic_fallback :: "'w env \<Rightarrow> 'w env" where
  "with_generic_fallback env = env\<lparr>tool_node_fallback := generic_tool_node env\<rparr>"

text \<open>A result whose content is an error description, as \<^verbatim>\<open>tool_node\<close> writes them.\<close>

definition error_prefix :: string where
  "error_prefix = ''Error: ''"

fun is_error_result :: "message \<Rightarrow> bool" where
  "is_error_result (ToolMessage c i) = (take (length error_prefix) c = error_prefix)"
| "is_error_result (HumanMessage c) = False"
| "is_error_result (AIMessage c tcs) = False"

section \<open>Example collaborators\<close>

text \<open>
  Stand-ins for the collaborators, used to run the model on concrete inputs. The world
  is a pair of counters: the calls the chat model has answered and the invocations the
  tools have served. The encyclopedia always answers, the web search always fails.
\<close>

type_synonym counters = "nat \<times> nat"

definition wiki_call :: tool_call where
  "wiki_call = ToolCall ''wikipedia'' [(''query'', ''Paris'')] ''call_w''"

definition web_call :: tool_call where
  "web_call = ToolCall ''duckduckgo_search'' [(''query'', ''latest AI news'')] ''call_d''"

definition unknown_call :: tool_call where
  "unknown_call = ToolCall ''unknown_tool'' [] ''call_u''"

definition example_wikipedia :: "counters \<Rightarrow> tool_call \<Rightarrow> (string + string) \<times> counters" where
  "example_wikipedia w c = (Inr ''Paris is the capital of France.'', (fst w, Suc (snd w)))"

definition example_duckduckgo :: "counters \<Rightarrow> tool_call \<Rightarrow> (string + string) \<times> counters" where
  "example_duckduckgo w c = (Inl ''connection timed out'', (fst w, Suc (snd w)))"

definition example_env :: "(counters \<Rightarrow> message list \<Rightarrow> (error + string \<times> tool_call list) \<times> counters) \<Rightarrow> counters env" where
  "example_env llm =
     with_generic_fallback
       \<lparr>llm_with_tools = llm,
        wikipedia_tool = example_wikipedia,
        duckduckgo_tool = example_duckduckgo,
        tool_node_fallback = (\<lambda>w state. (Inr [], w)),
        recursion_limit = 25\<rparr>"

text \<open>A chat model that asks for the encyclopedia on every call.\<close>

definition always_tool_llm :: "counters \<Rightarrow> message list \<Rightarrow> (error + string \<times> tool_call list) \<times> counters" where
  "always_tool_llm w ms = (Inr ([], [wiki_call]), (Suc (fst w), snd w))"

text \<open>
  A chat model that asks for the given batch of tools on its first call and answers on
  every later one.
\<close>

definition one_batch_llm :: "tool_call list \<Rightarrow> counters \<Rightarrow> message list \<Rightarrow> (error + string \<times> tool_call list) \<times> counters" where
  "one_batch_llm tcs w ms =
     (if fst w = 0 then (Inr ([], tcs), (Suc (fst w), snd w))
      else (Inr (''Paris'', []), (Suc (fst w), snd w)))"

text \<open>
  A chat model whose answers depend on how often it has been asked: tools on its first
  six calls, one answer on the seventh and another from then on.
\<close>

definition drifting_llm :: "counters \<Rightarrow> message list \<Rightarrow> (error + string \<times> tool_call list) \<times> counters" where
  "drifting_llm w ms =
     (if fst w < 6 then (Inr ([], [wiki_call]), (Suc (fst w), snd w))
      else if fst w = 6 then (Inr (''A'', []), (Suc (fst w), snd w))
      else (Inr (''B'', []), (Suc (fst w), snd w)))"

text \<open>A chat model that answers with the content of the first message it is given.\<close>

definition echo_llm :: "counters \<Rightarrow> message list \<Rightarrow> (error + string \<times> tool_call list) \<times> counters" where
  "echo_llm w ms =
     (Inr (case ms of [] \<Rightarrow> [] | m # _ \<Rightarrow> content m, []), (Suc (fst w), snd w))"

text \<open>Collaborators without a world: each answer depends on the arguments of the call only.\<close>

definition pure_env :: "unit env" where
  "pure_env =
     with_generic_fallback
       \<lparr>llm_with_tools = (\<lambda>w ms. (if length ms \<le> 2 then Inr ([], [web_call, wiki_call]) else Inr (''Paris'', []), ())),
        wikipedia_tool = (\<lambda>w c. (Inr ''Paris is the capital of France.'', ())),
        duckduckgo_tool = (\<lambda>w c. (Inl ''connection timed out'', ())),
        tool_node_fallback = (\<lambda>w state. (Inr [], ())),
        recursion_limit = 25\<rparr>"

text \<open>
  The run of the graph on the question \<open>q\<close> when the chat model first asks for the web
  search and the encyclopedia and then answers: its three steps and its final state.
\<close>

definition example_tool_results :: "message list" where
  "example_tool_results =
     [ToolMessage ''Error: connection timed out'' ''call_d'',
      ToolMessage (''Paris is the capital of France.'' @ nl @ nl @ ''Source: Wikipedia'') ''call_w'']"

definition example_final :: AgentState where
  "example_final =
     [HumanMessage ''q'', AIMessage [] [web_call, wiki_call]] @ example_tool_results @
     [AIMessage ''Paris'' []]"

definition example_steps :: "step list" where
  "example_steps =
     [(Llm_agent_node, [AIMessage [] [web_call, wiki_call]],
         [HumanMessage ''q'', AIMessage [] [web_call, wiki_call]]),
      (Tool_node, example_tool_results,
         [HumanMessage ''q'', AIMessage [] [web_call, wiki_call]] @ example_tool_results),
      (Llm_agent_node, [AIMessage ''Paris'' []], example_final)]"

section \<open>The tool node\<close>

lemma tool_executor_None: "tool_executor env name = None \<longleftrightarrow> \<not> registered name"
  by (simp add: tool_executor_def registered_def)

lemma tool_executor_registered:
  "registered name \<Longrightarrow> \<exists>invoke. tool_executor env name = Some invoke"
  by (auto simp: tool_executor_def registered_def)

lemma invocations_length:
  "list_all (\<lambda>t. registered (tc_name t)) tcs \<Longrightarrow> length (fst (invocations env w tcs)) = length tcs"
proof (induction tcs arbitrary: w)
  case Nil
  then show ?case by simp
next
  case (Cons c cs)
  from Cons.prems obtain invoke where ex: "tool_executor env (tc_name c) = Some invoke"
    using tool_executor_registered [of "tc_name c" env] by auto
  obtain r w1 where inv: "invoke w c = (r, w1)" by (cases "invoke w c")
  from Cons.prems have "length (fst (invocations env w1 cs)) = length cs"
    by (intro Cons.IH) simp
  then show ?case
    by (cases "invocations env w1 cs") (simp add: ex inv)
qed

lemma tool_loop_registered:
  "list_all (\<lambda>t. registered (tc_name t)) tcs \<Longrightarrow>
   tool_loop env w state tcs acc =
     (Inr (acc @ map2 expected_result tcs (fst (invocations env w tcs))), snd (invocations env w tcs))"
proof (induction tcs arbitrary: w acc)
  case Nil
  then show ?case by simp
next
  case (Cons c cs)
  from Cons.prems obtain invoke where ex: "tool_executor env (tc_name c) = Some invoke"
    using tool_executor_registered [of "tc_name c" env] by auto
  obtain r w1 where inv: "invoke w c = (r, w1)" by (cases "invoke w c")
  from Cons.prems have rest: "list_all (\<lambda>t. registered (tc_name t)) cs" by simp
  have step: "tool_loop env w state (c # cs) acc = tool_loop env w1 state cs (acc @ [expected_result c r])"
    by (cases r) (simp_all add: ex inv Let_def)
  show ?case
    unfolding step Cons.IH [OF rest]
    by (cases "invocations env w1 cs") (simp add: ex inv)
qed

lemma tool_loop_unregistered:
  "list_all (\<lambda>t. registered (tc_name t)) pre \<Longrightarrow> \<not> registered (tc_name u) \<Longrightarrow>
   tool_loop env w state (pre @ u # post) acc =
     tool_node_fallback env (snd (invocations env w pre)) state"
proof (induction pre arbitrary: w acc)
  case Nil
  then have "tool_executor env (tc_name u) = None" by (simp add: tool_executor_None)
  then show ?case by (simp add: Let_def)
next
  case (Cons c cs)
  from Cons.prems obtain invoke where ex: "tool_executor env (tc_name c) = Some invoke"
    using tool_executor_registered [of "tc_name c" env] by auto
  obtain r w1 where inv: "invoke w c = (r, w1)" by (cases "invoke w c")
  from Cons.prems have rest: "list_all (\<lambda>t. registered (tc_name t)) cs" by simp
  have step: "tool_loop env w state ((c # cs) @ u # post) acc =
      tool_loop env w1 state (cs @ u # post) (acc @ [expected_result c r])"
    by (cases r) (simp_all add: ex inv Let_def)
  show ?case
    unfolding step Cons.IH [OF rest Cons.prems(2)]
    by (cases "invocations env w1 cs") (simp add: ex inv)
qed

lemma generic_dispatch_ids: "result_ids (fst (generic_dispatch env w tcs)) = request_ids tcs"
proof (induction tcs arbitrary: w)
  case Nil
  show ?case by (simp add: result_ids_def request_ids_def)
next
  case (Cons c cs)
  show ?case
  proof (cases "tool_executor env (tc_name c)")
    case None
    obtain ms w' where g: "generic_dispatch env w cs = (ms, w')" by (cases "generic_dispatch env w cs")
    with Cons.IH [of w] have "result_ids ms = request_ids cs" by simp
    with None g show ?thesis by (simp add: result_ids_def request_ids_def)
  next
    case (Some invoke)
    obtain r w1 where inv: "invoke w c = (r, w1)" by (cases "invoke w c")
    obtain ms w' where g: "generic_dispatch env w1 cs = (ms, w')" by (cases "generic_dispatch env w1 cs")
    with Cons.IH [of w1] have "result_ids ms = request_ids cs" by simp
    with Some inv g show ?thesis by (cases r) (simp_all add: result_ids_def request_ids_def)
  qed
qed

lemma tool_executor_with_generic:
  "tool_executor (with_generic_fallback env) = tool_executor env"
  by (rule ext) (simp add: tool_executor_def with_generic_fallback_def)

lemma generic_one_result_per_request: "one_result_per_request (with_generic_fallback env)"
  unfolding one_result_per_request_def
proof (intro allI impI)
  fix w state c tcs
  assume a: "state \<noteq> [] \<and> last state = AIMessage c tcs"
  obtain ms w' where g: "generic_dispatch env w tcs = (ms, w')" by (cases "generic_dispatch env w tcs")
  have "result_ids ms = request_ids tcs" using generic_dispatch_ids [of env w tcs] g by simp
  with a g show "\<exists>ms w'. tool_node_fallback (with_generic_fallback env) w state = (Inr ms, w') \<and> result_ids ms = request_ids tcs"
    by (cases state) (auto simp: with_generic_fallback_def generic_tool_node_def)
qed

lemma tool_node_AIMessage:
  "state \<noteq> [] \<Longrightarrow> last state = AIMessage c tcs \<Longrightarrow> tool_node env w state = tool_loop env w state tcs []"
  by (cases state) (simp_all add: tool_node_def)

lemma result_ids_expected:
  "length rs = length tcs \<Longrightarrow> result_ids (map2 expected_result tcs rs) = request_ids tcs"
proof (induction tcs arbitrary: rs)
  case Nil
  then show ?case by (simp add: result_ids_def request_ids_def)
next
  case (Cons c cs)
  then obtain r rs' where rs: "rs = r # rs'" by (cases rs) auto
  with Cons.prems have "length rs' = length cs" by simp
  then have "result_ids (map2 expected_result cs rs') = request_ids cs" by (rule Cons.IH)
  then show ?case by (cases r) (simp_all add: rs result_ids_def request_ids_def)
qed

lemma tool_node_registered:
  assumes "state \<noteq> []" and "last state = AIMessage c tcs"
    and "list_all (\<lambda>t. registered (tc_name t)) tcs"
  shows "tool_node env w state =
    (Inr (map2 expected_result tcs (fst (invocations env w tcs))), snd (invocations env w tcs))"
  using assms by (simp add: tool_node_AIMessage tool_loop_registered)

lemma tool_node_unregistered:
  assumes "state \<noteq> []" and "last state = AIMessage c (pre @ u # post)"
    and "list_all (\<lambda>t. registered (tc_name t)) pre" and "\<not> registered (tc_name u)"
  shows "tool_node env w state = tool_node_fallback env (snd (invocations env w pre)) state"
  using assms by (simp add: tool_node_AIMessage tool_loop_unregistered)

lemma first_unregistered:
  assumes "\<not> list_all (\<lambda>t. registered (tc_name t)) tcs"
  shows "\<exists>pre u post. tcs = pre @ u # post \<and> list_all (\<lambda>t. registered (tc_name t)) pre \<and>
           \<not> registered (tc_name u)"
proof -
  from assms have "\<exists>t \<in> set tcs. \<not> registered (tc_name t)" by (simp add: list_all_iff)
  from split_list_first_prop [OF this] show ?thesis by (auto simp: list_all_iff)
qed

lemma ids_give_length: "result_ids ms = request_ids tcs \<Longrightarrow> length ms = length tcs"
  by (metis length_map result_ids_def request_ids_def)

lemma ids_give_tool_messages: "result_ids ms = request_ids tcs \<Longrightarrow> list_all is_ToolMessage ms"
proof (induction ms arbitrary: tcs)
  case Nil
  then show ?case by simp
next
  case (Cons m ms)
  then obtain c cs where tcs: "tcs = c # cs" by (cases tcs) (auto simp: result_ids_def request_ids_def)
  with Cons.prems have "tool_call_id_attr m = Some (tc_id c)" and "result_ids ms = request_ids cs"
    by (simp_all add: result_ids_def request_ids_def)
  then show ?case using Cons.IH [of cs] by (cases m) simp_all
qed

lemma tool_node_result_ids:
  assumes contract: "one_result_per_request env"
    and ne: "state \<noteq> []" and last: "last state = AIMessage c tcs"
  shows "\<exists>ms w'. tool_node env w state = (Inr ms, w') \<and> result_ids ms = request_ids tcs"
proof (cases "list_all (\<lambda>t. registered (tc_name t)) tcs")
  case True
  then have "length (fst (invocations env w tcs)) = length tcs" by (rule invocations_length)
  then have "result_ids (map2 expected_result tcs (fst (invocations env w tcs))) = request_ids tcs"
    by (rule result_ids_expected)
  moreover have "tool_node env w state =
      (Inr (map2 expected_result tcs (fst (invocations env w tcs))), snd (invocations env w tcs))"
    by (rule tool_node_registered [OF ne last True])
  ultimately show ?thesis by blast
next
  case False
  then obtain pre u post where split: "tcs = pre @ u # post"
    and pre: "list_all (\<lambda>t. registered (tc_name t)) pre" and u: "\<not> registered (tc_name u)"
    using first_unregistered by blast
  from last split have last': "last state = AIMessage c (pre @ u # post)" by simp
  have "tool_node env w state = tool_node_fallback env (snd (invocations env w pre)) state"
    by (rule tool_node_unregistered [OF ne last' pre u])
  moreover from contract ne last
  have "\<exists>ms w'. tool_node_fallback env (snd (invocations env w pre)) state = (Inr ms, w') \<and>
      result_ids ms = request_ids tcs"
    unfolding one_result_per_request_def by blast
  ultimately show ?thesis by simp
qed

text \<open>
  Claim C2. For a state that ends with an \<^verbatim>\<open>AIMessage\<close> with \<open>N\<close> tool calls, \<^verbatim>\<open>tool_node\<close>
  returns, without raising, exactly \<open>N\<close> messages, all of them \<^verbatim>\<open>ToolMessage\<close>s, whose
  \<^verbatim>\<open>tool_call_id\<close>s are the ids of the calls in the order of the calls: the \<open>i\<close>-th result
  answers the \<open>i\<close>-th request, none is left out, and the result ids are distinct when the
  request ids are. For a batch of registered names this is the work of \<^verbatim>\<open>tool_node\<close>
  itself; a batch with another name is handed to the prebuilt node, which is assumed to keep
  its part of the contract.
\<close>

theorem tool_node_one_result_per_request:
  assumes "one_result_per_request env" and "state \<noteq> []" and "last state = AIMessage c tcs"
  shows "\<exists>ms w'. tool_node env w state = (Inr ms, w') \<and> length ms = length tcs \<and>
           list_all is_ToolMessage ms \<and>
           map tool_call_id_attr ms = map (\<lambda>t. Some (tc_id t)) tcs \<and>
           (\<forall>i < length tcs. tool_call_id_attr (ms ! i) = Some (tc_id (tcs ! i))) \<and>
           (distinct (map tc_id tcs) \<longrightarrow> distinct (map tool_call_id_attr ms))"
proof -
  from tool_node_result_ids [OF assms] obtain ms w' where
    run: "tool_node env w state = (Inr ms, w')" and ids: "result_ids ms = request_ids tcs"
    by blast
  from ids have len: "length ms = length tcs" by (rule ids_give_length)
  from ids have kind: "list_all is_ToolMessage ms" by (rule ids_give_tool_messages)
  from ids have eq: "map tool_call_id_attr ms = map (\<lambda>t. Some (tc_id t)) tcs"
    by (simp add: result_ids_def request_ids_def)
  have nth: "\<forall>i < length tcs. tool_call_id_attr (ms ! i) = Some (tc_id (tcs ! i))"
  proof (intro allI impI)
    fix i assume i: "i < length tcs"
    with len have "map tool_call_id_attr ms ! i = tool_call_id_attr (ms ! i)" by simp
    moreover from i have "map (\<lambda>t. Some (tc_id t)) tcs ! i = Some (tc_id (tcs ! i))" by simp
    ultimately show "tool_call_id_attr (ms ! i) = Some (tc_id (tcs ! i))" using eq by simp
  qed
  have dist: "distinct (map tc_id tcs) \<longrightarrow> distinct (map tool_call_id_attr ms)"
  proof
    assume "distinct (map tc_id tcs)"
    then have "distinct (map (\<lambda>t. Some (tc_id t)) tcs)" by (auto simp: distinct_map inj_on_def)
    then show "distinct (map tool_call_id_attr ms)" by (simp add: eq)
  qed
  from run len kind eq nth dist show ?thesis by blast
qed

theorem tool_node_one_result_per_request_witness:
  "\<exists>ms w'. tool_node (example_env always_tool_llm) (0, 0)
      [HumanMessage ''q'', AIMessage [] [web_call, unknown_call, wiki_call]] = (Inr ms, w') \<and>
     length ms = 3 \<and>
     map tool_call_id_attr ms = [Some ''call_d'', Some ''call_u'', Some ''call_w'']"
proof -
  have contract: "one_result_per_request (example_env always_tool_llm)"
    unfolding example_env_def by (rule generic_one_result_per_request)
  have ne: "[HumanMessage ''q'', AIMessage [] [web_call, unknown_call, wiki_call]] \<noteq> []" by simp
  have last: "last [HumanMessage ''q'', AIMessage [] [web_call, unknown_call, wiki_call]] =
      AIMessage [] [web_call, unknown_call, wiki_call]" by simp
  from tool_node_one_result_per_request [OF contract ne last, of "(0, 0)"]
  obtain ms w' where
    run: "tool_node (example_env always_tool_llm) (0, 0)
      [HumanMessage ''q'', AIMessage [] [web_call, unknown_call, wiki_call]] = (Inr ms, w')"
    and len: "length ms = length [web_call, unknown_call, wiki_call]"
    and ids: "map tool_call_id_attr ms = map (\<lambda>t. Some (tc_id t)) [web_call, unknown_call, wiki_call]"
    by blast
  from len have l3: "length ms = 3" by simp
  from ids have ids3: "map tool_call_id_attr ms = [Some ''call_d'', Some ''call_u'', Some ''call_w'']"
    by (simp add: web_call_def unknown_call_def wiki_call_def)
  show ?thesis
    by (rule exI [of _ ms], rule exI [of _ w']) (simp add: run l3 ids3)
qed

lemma expected_results_nth:
  assumes reg: "list_all (\<lambda>t. registered (tc_name t)) tcs"
  shows "length (map2 expected_result tcs (fst (invocations env w tcs))) = length tcs \<and>
         (\<forall>j < length tcs. map2 expected_result tcs (fst (invocations env w tcs)) ! j =
            expected_result (tcs ! j) (fst (invocations env w tcs) ! j))"
  using invocations_length [OF reg, of env w] by simp

lemma tool_step_continues:
  assumes "tool_node env w state = (Inr ms, w')"
  shows "next_node Tool_node (add_messages state ms) = Inr (Some Llm_agent_node) \<and>
         (\<exists>steps r w''. app_run env k Llm_agent_node w' (state @ ms) = ((steps, r), w'') \<and>
            app_run env (Suc k) Tool_node w state = (((Tool_node, ms, state @ ms) # steps, r), w''))"
proof -
  obtain steps r w'' where rest: "app_run env k Llm_agent_node w' (state @ ms) = ((steps, r), w'')"
    by (metis surj_pair)
  with assms have "app_run env (Suc k) Tool_node w state = (((Tool_node, ms, state @ ms) # steps, r), w'')"
    by (simp add: Let_def add_messages_def)
  with rest show ?thesis by simp
qed

lemma example_batch_registered: "list_all (\<lambda>t. registered (tc_name t)) [web_call, wiki_call]"
  by (simp add: web_call_def wiki_call_def registered_def)

lemma example_batch_invocations:
  "invocations (example_env llm) (0, 0) [web_call, wiki_call] =
     ([Inl ''connection timed out'', Inr ''Paris is the capital of France.''], (0, 2))"
  by (simp add: example_env_def with_generic_fallback_def tool_executor_def example_wikipedia_def
      example_duckduckgo_def web_call_def wiki_call_def)

text \<open>
  Claim C4. In a batch of registered tools, a tool that raises when it is invoked does not
  make \<^verbatim>\<open>tool_node\<close> raise: the node returns one result for every request of the batch,
  the result of the failed request is the \<^verbatim>\<open>ToolMessage\<close> with the content
  \<^verbatim>\<open>"Error: "\<close> followed by the text of the exception and with the id of the request, the
  other requests are answered as if nothing had failed, and the graph goes on to
  \<^verbatim>\<open>llm_agent_node\<close> with these results appended to the state.
\<close>

theorem tool_failure_becomes_result:
  assumes "state \<noteq> []" and "last state = AIMessage c tcs"
    and "list_all (\<lambda>t. registered (tc_name t)) tcs"
    and "i < length tcs" and "fst (invocations env w tcs) ! i = Inl e"
  shows "\<exists>ms w'. tool_node env w state = (Inr ms, w') \<and> length ms = length tcs \<and>
           ms ! i = ToolMessage (''Error: '' @ e) (tc_id (tcs ! i)) \<and> is_error_result (ms ! i) \<and>
           (\<forall>j < length tcs. ms ! j = expected_result (tcs ! j) (fst (invocations env w tcs) ! j)) \<and>
           next_node Tool_node (add_messages state ms) = Inr (Some Llm_agent_node) \<and>
           (\<exists>steps r w''. app_run env k Llm_agent_node w' (state @ ms) = ((steps, r), w'') \<and>
              app_run env (Suc k) Tool_node w state = (((Tool_node, ms, state @ ms) # steps, r), w''))"
proof -
  define ms where "ms = map2 expected_result tcs (fst (invocations env w tcs))"
  define w' where "w' = snd (invocations env w tcs)"
  have run: "tool_node env w state = (Inr ms, w')"
    unfolding ms_def w'_def by (rule tool_node_registered [OF assms(1-3)])
  have len: "length ms = length tcs"
    unfolding ms_def by (rule expected_results_nth [OF assms(3), THEN conjunct1])
  have nth: "\<forall>j < length tcs. ms ! j = expected_result (tcs ! j) (fst (invocations env w tcs) ! j)"
    unfolding ms_def by (rule expected_results_nth [OF assms(3), THEN conjunct2])
  from nth assms(4) have nth_i: "ms ! i = expected_result (tcs ! i) (fst (invocations env w tcs) ! i)"
    by (elim allE [of _ i]) (erule mp)
  have at_i: "ms ! i = ToolMessage (''Error: '' @ e) (tc_id (tcs ! i))"
    unfolding nth_i assms(5) by simp
  then have err: "is_error_result (ms ! i)" by (simp add: error_prefix_def)
  note cont = tool_step_continues [OF run, of k]
  show ?thesis
    by (rule exI [of _ ms], rule exI [of _ w']) (intro conjI run len at_i err nth cont [THEN conjunct1] cont [THEN conjunct2])
qed

theorem tool_failure_becomes_result_witness:
  "\<exists>ms w'. tool_node (example_env always_tool_llm) (0, 0)
       [HumanMessage ''q'', AIMessage [] [web_call, wiki_call]] = (Inr ms, w') \<and>
     length ms = 2 \<and>
     ms ! 0 = ToolMessage ''Error: connection timed out'' ''call_d'' \<and>
     ms ! 1 = ToolMessage (''Paris is the capital of France.'' @ nl @ nl @ ''Source: Wikipedia'') ''call_w''"
proof -
  have ne: "[HumanMessage ''q'', AIMessage [] [web_call, wiki_call]] \<noteq> []" by simp
  have last: "last [HumanMessage ''q'', AIMessage [] [web_call, wiki_call]] = AIMessage [] [web_call, wiki_call]"
    by simp
  note reg = example_batch_registered
  have i: "0 < length [web_call, wiki_call]" by simp
  note inv = example_batch_invocations [of always_tool_llm]
  have failed: "fst (invocations (example_env always_tool_llm) (0, 0) [web_call, wiki_call]) ! 0 =
      Inl ''connection timed out''"
    unfolding inv by simp
  from tool_failure_becomes_result [OF ne last reg i failed, of 0]
  obtain ms w' where
    run: "tool_node (example_env always_tool_llm) (0, 0)
       [HumanMessage ''q'', AIMessage [] [web_call, wiki_call]] = (Inr ms, w')"
    and len: "length ms = length [web_call, wiki_call]"
    and at0: "ms ! 0 = ToolMessage (''Error: '' @ ''connection timed out'') (tc_id ([web_call, wiki_call] ! 0))"
    and rest: "\<forall>j < length [web_call, wiki_call]. ms ! j =
        expected_result ([web_call, wiki_call] ! j)
          (fst (invocations (example_env always_tool_llm) (0, 0) [web_call, wiki_call]) ! j)"
    by blast
  from rest have "ms ! 1 = expected_result ([web_call, wiki_call] ! 1)
          (fst (invocations (example_env always_tool_llm) (0, 0) [web_call, wiki_call]) ! 1)"
    by (elim allE [of _ 1]) simp
  then have at1: "ms ! 1 = ToolMessage (''Paris is the capital of France.'' @ nl @ nl @ ''Source: Wikipedia'') ''call_w''"
    unfolding inv by (simp add: wiki_call_def source_info_def)
  from at0 have at0': "ms ! 0 = ToolMessage ''Error: connection timed out'' ''call_d''"
    by (simp add: web_call_def)
  from len have len': "length ms = 2" by simp
  show ?thesis
    by (rule exI [of _ ms], rule exI [of _ w']) (intro conjI run len' at0' at1)
qed

lemma source_info_registered:
  "source_info ''wikipedia'' = nl @ nl @ ''Source: Wikipedia'' \<and>
   source_info ''duckduckgo_search'' = nl @ nl @ ''Source: Web Search (DuckDuckGo)'' \<and>
   source_info ''wikipedia'' \<noteq> source_info ''duckduckgo_search''"
  by (simp add: source_info_def nl_def)

text \<open>
  The source line of a successful invocation. In a batch of registered tools, the
  result for a request whose tool answered is the stringified output of the tool
  followed by the source line of that tool: \<^verbatim>\<open>"\n\nSource: Wikipedia"\<close> for the
  encyclopedia and \<^verbatim>\<open>"\n\nSource: Web Search (DuckDuckGo)"\<close> for the web search, two
  different lines.
\<close>

lemma registered_success_is_attributed:
  assumes "state \<noteq> []" and "last state = AIMessage c tcs"
    and "list_all (\<lambda>t. registered (tc_name t)) tcs"
    and "i < length tcs" and "fst (invocations env w tcs) ! i = Inr out"
  shows "\<exists>ms w'. tool_node env w state = (Inr ms, w') \<and> length ms = length tcs \<and>
           ms ! i = ToolMessage (out @ source_info (tc_name (tcs ! i))) (tc_id (tcs ! i)) \<and>
           (tc_name (tcs ! i) = ''wikipedia'' \<and>
              source_info (tc_name (tcs ! i)) = nl @ nl @ ''Source: Wikipedia'' \<or>
            tc_name (tcs ! i) = ''duckduckgo_search'' \<and>
              source_info (tc_name (tcs ! i)) = nl @ nl @ ''Source: Web Search (DuckDuckGo)'') \<and>
           source_info ''wikipedia'' \<noteq> source_info ''duckduckgo_search''"
proof -
  define ms where "ms = map2 expected_result tcs (fst (invocations env w tcs))"
  define w' where "w' = snd (invocations env w tcs)"
  have run: "tool_node env w state = (Inr ms, w')"
    unfolding ms_def w'_def by (rule tool_node_registered [OF assms(1-3)])
  have len: "length ms = length tcs"
    unfolding ms_def by (rule expected_results_nth [OF assms(3), THEN conjunct1])
  have nth: "\<forall>j < length tcs. ms ! j = expected_result (tcs ! j) (fst (invocations env w tcs) ! j)"
    unfolding ms_def by (rule expected_results_nth [OF assms(3), THEN conjunct2])
  from nth assms(4) have nth_i: "ms ! i = expected_result (tcs ! i) (fst (invocations env w tcs) ! i)"
    by (elim allE [of _ i]) (erule mp)
  have at_i: "ms ! i = ToolMessage (out @ source_info (tc_name (tcs ! i))) (tc_id (tcs ! i))"
    unfolding nth_i assms(5) by simp
  from assms(3,4) have "registered (tc_name (tcs ! i))" by (simp add: list_all_length)
  then have name: "tc_name (tcs ! i) = ''wikipedia'' \<and>
              source_info (tc_name (tcs ! i)) = nl @ nl @ ''Source: Wikipedia'' \<or>
            tc_name (tcs ! i) = ''duckduckgo_search'' \<and>
              source_info (tc_name (tcs ! i)) = nl @ nl @ ''Source: Web Search (DuckDuckGo)''"
    using source_info_registered by (auto simp: registered_def)
  note distinct = source_info_registered [THEN conjunct2, THEN conjunct2]
  show ?thesis
    by (rule exI [of _ ms], rule exI [of _ w']) (intro conjI run len at_i name distinct)
qed

lemma registered_success_is_attributed_example:
  "\<exists>ms w'. tool_node (example_env always_tool_llm) (0, 0)
       [HumanMessage ''q'', AIMessage [] [web_call, wiki_call]] = (Inr ms, w') \<and>
     length ms = 2 \<and>
     ms ! 1 = ToolMessage (''Paris is the capital of France.'' @ nl @ nl @ ''Source: Wikipedia'') ''call_w''"
proof -
  have ne: "[HumanMessage ''q'', AIMessage [] [web_call, wiki_call]] \<noteq> []" by simp
  have last: "last [HumanMessage ''q'', AIMessage [] [web_call, wiki_call]] = AIMessage [] [web_call, wiki_call]"
    by simp
  have i: "1 < length [web_call, wiki_call]" by simp
  have answered: "fst (invocations (example_env always_tool_llm) (0, 0) [web_call, wiki_call]) ! 1 =
      Inr ''Paris is the capital of France.''"
    unfolding example_batch_invocations by simp
  from registered_success_is_attributed [OF ne last example_batch_registered i answered]
  obtain ms w' where
    run: "tool_node (example_env always_tool_llm) (0, 0)
       [HumanMessage ''q'', AIMessage [] [web_call, wiki_call]] = (Inr ms, w')"
    and len: "length ms = length [web_call, wiki_call]"
    and at1: "ms ! 1 = ToolMessage (''Paris is the capital of France.'' @
        source_info (tc_name ([web_call, wiki_call] ! 1))) (tc_id ([web_call, wiki_call] ! 1))"
    by blast
  from at1 have at1': "ms ! 1 =
      ToolMessage (''Paris is the capital of France.'' @ nl @ nl @ ''Source: Wikipedia'') ''call_w''"
    by (simp add: wiki_call_def source_info_def)
  from len have len': "length ms = 2" by simp
  show ?thesis
    by (rule exI [of _ ms], rule exI [of _ w']) (intro conjI run len' at1')
qed

lemma invocations_stop:
  "list_all (\<lambda>t. registered (tc_name t)) pre \<Longrightarrow> \<not> registered (tc_name u) \<Longrightarrow>
   invocations env w (pre @ u # post) = invocations env w pre"
proof (induction pre arbitrary: w)
  case Nil
  then have "tool_executor env (tc_name u) = None" by (simp add: tool_executor_None)
  then show ?case by simp
next
  case (Cons c cs)
  from Cons.prems obtain invoke where ex: "tool_executor env (tc_name c) = Some invoke"
    using tool_executor_registered [of "tc_name c" env] by auto
  obtain r w1 where inv: "invoke w c = (r, w1)" by (cases "invoke w c")
  from Cons.prems have "invocations env w1 (cs @ u # post) = invocations env w1 cs"
    by (intro Cons.IH) simp_all
  then show ?case by (simp add: ex inv)
qed

text \<open>
  Claim C10. When the batch has a name that is not registered, \<^verbatim>\<open>tool_node\<close> returns what
  the fallback returns for the whole state, called at the first such name: in the world
  left by the invocations of the registered tools before it, each of which has run once.
  Whatever results the loop has collected by then are not part of the outcome, and the
  loop invokes no tool for the requests after that name.
\<close>

theorem unregistered_name_delegates_whole_batch:
  assumes "state \<noteq> []" and "last state = AIMessage c (pre @ u # post)"
    and "list_all (\<lambda>t. registered (tc_name t)) pre" and "\<not> registered (tc_name u)"
  shows "tool_node env w state = tool_node_fallback env (snd (invocations env w pre)) state \<and>
         tool_loop env w state (pre @ u # post) tool_outputs =
           tool_node_fallback env (snd (invocations env w pre)) state \<and>
         length (fst (invocations env w pre)) = length pre \<and>
         invocations env w (pre @ u # post) = invocations env w pre"
  using assms
  by (simp add: tool_node_unregistered tool_loop_unregistered invocations_length invocations_stop)

theorem unregistered_name_delegates_whole_batch_witness:
  "tool_node (example_env always_tool_llm) (0, 0)
     [HumanMessage ''q'', AIMessage [] [wiki_call, unknown_call, web_call]] =
     (Inr [ToolMessage ''Paris is the capital of France.'' ''call_w'',
           ToolMessage ''Error: unknown_tool is not a valid tool'' ''call_u'',
           ToolMessage ''Error: connection timed out'' ''call_d''], (0, 3))"
proof -
  have ne: "[HumanMessage ''q'', AIMessage [] [wiki_call, unknown_call, web_call]] \<noteq> []" by simp
  have last: "last [HumanMessage ''q'', AIMessage [] [wiki_call, unknown_call, web_call]] =
      AIMessage [] ([wiki_call] @ unknown_call # [web_call])"
    by simp
  have pre: "list_all (\<lambda>t. registered (tc_name t)) [wiki_call]"
    by (simp add: wiki_call_def registered_def)
  have u: "\<not> registered (tc_name unknown_call)"
    by (simp add: unknown_call_def registered_def)
  have before: "invocations (example_env always_tool_llm) (0, 0) [wiki_call] =
      ([Inr ''Paris is the capital of France.''], (0, 1))"
    by (simp add: example_env_def with_generic_fallback_def tool_executor_def example_wikipedia_def
        wiki_call_def)
  from unregistered_name_delegates_whole_batch [OF ne last pre u, of "example_env always_tool_llm" "(0, 0)" "[]"]
  have "tool_node (example_env always_tool_llm) (0, 0)
     [HumanMessage ''q'', AIMessage [] [wiki_call, unknown_call, web_call]] =
     tool_node_fallback (example_env always_tool_llm)
       (snd (invocations (example_env always_tool_llm) (0, 0) [wiki_call]))
       [HumanMessage ''q'', AIMessage [] [wiki_call, unknown_call, web_call]]"
    by (rule conjunct1)
  also have "\<dots> = (Inr [ToolMessage ''Paris is the capital of France.'' ''call_w'',
           ToolMessage ''Error: unknown_tool is not a valid tool'' ''call_u'',
           ToolMessage ''Error: connection timed out'' ''call_d''], (0, 3))"
    unfolding before
    by (simp add: example_env_def with_generic_fallback_def generic_tool_node_def tool_executor_def
        example_wikipedia_def example_duckduckgo_def wiki_call_def unknown_call_def web_call_def)
  finally show ?thesis .
qed

text \<open>
  Claim C7. Every successful tool invocation should give a result whose content is the
  stringified output of the tool followed by the source line of the tool that answered.
  \<^verbatim>\<open>tool_node\<close> builds that message (lines 107 to 118), and returns it when every name
  of the batch is registered (\<open>registered_success_is_attributed\<close>). With an unregistered name
  in the same batch it does not: for the calls \<^verbatim>\<open>wikipedia\<close> and \<^verbatim>\<open>unknown_tool\<close> the
  encyclopedia is invoked and answers, the attributed message is dropped with
  \<open>tool_outputs\<close> at the early return, and the result returned for the encyclopedia's
  call is the fallback's, the bare output without the source line.
\<close>

theorem attribution_lost_beside_unregistered_name:
  "invocations (example_env always_tool_llm) (0, 0) [wiki_call, unknown_call] =
     ([Inr ''Paris is the capital of France.''], (0, 1)) \<and>
   tool_node (example_env always_tool_llm) (0, 0)
     [HumanMessage ''q'', AIMessage [] [wiki_call, unknown_call]] =
     (Inr [ToolMessage ''Paris is the capital of France.'' ''call_w'',
           ToolMessage ''Error: unknown_tool is not a valid tool'' ''call_u''], (0, 2)) \<and>
   expected_result wiki_call (Inr ''Paris is the capital of France.'') =
     ToolMessage (''Paris is the capital of France.'' @ nl @ nl @ ''Source: Wikipedia'') ''call_w'' \<and>
   ToolMessage ''Paris is the capital of France.'' ''call_w'' \<noteq>
     expected_result wiki_call (Inr ''Paris is the capital of France.'')"
  by code_simp

lemma generic_dispatch_length: "length (fst (generic_dispatch env w tcs)) = length tcs"
  using generic_dispatch_ids [of env w tcs] by (rule ids_give_length)

lemma generic_dispatch_unregistered:
  "i < length tcs \<Longrightarrow> \<not> registered (tc_name (tcs ! i)) \<Longrightarrow>
   fst (generic_dispatch env w tcs) ! i =
     ToolMessage (''Error: '' @ tc_name (tcs ! i) @ '' is not a valid tool'') (tc_id (tcs ! i))"
proof (induction tcs arbitrary: i w)
  case Nil
  then show ?case by simp
next
  case (Cons c cs)
  show ?case
  proof (cases i)
    case 0
    with Cons.prems have "tool_executor env (tc_name c) = None" by (simp add: tool_executor_None)
    with 0 show ?thesis by (cases "generic_dispatch env w cs") simp
  next
    case (Suc j)
    with Cons.prems have j: "j < length cs" and unreg: "\<not> registered (tc_name (cs ! j))" by simp_all
    show ?thesis
    proof (cases "tool_executor env (tc_name c)")
      case None
      obtain ms w' where g: "generic_dispatch env w cs = (ms, w')" by (cases "generic_dispatch env w cs")
      from Cons.IH [OF j unreg, of w] g
      show ?thesis by (simp add: None Suc)
    next
      case (Some invoke)
      obtain r w1 where inv: "invoke w c = (r, w1)" by (cases "invoke w c")
      obtain ms w' where g: "generic_dispatch env w1 cs = (ms, w')" by (cases "generic_dispatch env w1 cs")
      from Cons.IH [OF j unreg, of w1] g
      show ?thesis by (cases r) (simp_all add: Some inv Suc)
    qed
  qed
qed

text \<open>
  Claim C5. With the generic dispatch path of the specification as the fallback, a
  request that names an unregistered tool (\<^verbatim>\<open>"unknown_tool"\<close>, say) makes \<^verbatim>\<open>tool_node\<close> take
  that path: what it returns is what the generic node returns for the state. The request
  is not dropped and nothing is raised: there is one result for every request of the
  batch, the result at the position of the unregistered request carries its id and an
  error description as content, and the graph goes on to \<^verbatim>\<open>llm_agent_node\<close>.
\<close>

theorem unregistered_tool_gets_one_result:
  assumes "state \<noteq> []" and "last state = AIMessage c tcs"
    and "i < length tcs" and "\<not> registered (tc_name (tcs ! i))"
  shows "\<exists>ms w1 w'. tool_node (with_generic_fallback env) w state = (Inr ms, w') \<and>
           generic_tool_node env w1 state = (Inr ms, w') \<and>
           length ms = length tcs \<and>
           map tool_call_id_attr ms = map (\<lambda>t. Some (tc_id t)) tcs \<and>
           tool_call_id_attr (ms ! i) = Some (tc_id (tcs ! i)) \<and>
           is_error_result (ms ! i) \<and>
           next_node Tool_node (add_messages state ms) = Inr (Some Llm_agent_node)"
proof -
  from assms(3,4) have "\<not> list_all (\<lambda>t. registered (tc_name t)) tcs"
    by (auto simp: list_all_length)
  then obtain pre u post where split: "tcs = pre @ u # post"
    and pre: "list_all (\<lambda>t. registered (tc_name t)) pre" and u: "\<not> registered (tc_name u)"
    using first_unregistered by blast
  define w1 where "w1 = snd (invocations (with_generic_fallback env) w pre)"
  define ms where "ms = fst (generic_dispatch env w1 tcs)"
  define w' where "w' = snd (generic_dispatch env w1 tcs)"
  from assms(2) split have last': "last state = AIMessage c (pre @ u # post)" by simp
  have "tool_node (with_generic_fallback env) w state =
      tool_node_fallback (with_generic_fallback env) w1 state"
    unfolding w1_def by (rule tool_node_unregistered [OF assms(1) last' pre u])
  also have "\<dots> = generic_tool_node env w1 state"
    by (simp add: with_generic_fallback_def)
  finally have run: "tool_node (with_generic_fallback env) w state = generic_tool_node env w1 state" .
  have gen: "generic_tool_node env w1 state = (Inr ms, w')"
    using assms(1,2) by (cases state) (simp_all add: generic_tool_node_def ms_def w'_def split: prod.splits)
  have len: "length ms = length tcs" unfolding ms_def by (rule generic_dispatch_length)
  have ids: "map tool_call_id_attr ms = map (\<lambda>t. Some (tc_id t)) tcs"
    using generic_dispatch_ids [of env w1 tcs] by (simp add: ms_def result_ids_def request_ids_def)
  have at_i: "ms ! i = ToolMessage (''Error: '' @ tc_name (tcs ! i) @ '' is not a valid tool'') (tc_id (tcs ! i))"
    unfolding ms_def by (rule generic_dispatch_unregistered [OF assms(3,4)])
  have id_i: "tool_call_id_attr (ms ! i) = Some (tc_id (tcs ! i))" unfolding at_i by simp
  have err: "is_error_result (ms ! i)" unfolding at_i by (simp add: error_prefix_def)
  have cont: "next_node Tool_node (add_messages state ms) = Inr (Some Llm_agent_node)" by simp
  show ?thesis
    by (rule exI [of _ ms], rule exI [of _ w1], rule exI [of _ w'])
      (intro conjI run [unfolded gen] gen len ids id_i err cont)
qed

theorem unregistered_tool_gets_one_result_witness:
  "\<exists>ms w'. tool_node (with_generic_fallback (example_env always_tool_llm)) (0, 0)
       [HumanMessage ''q'', AIMessage [] [unknown_call]] = (Inr ms, w') \<and>
     length ms = 1 \<and> tool_call_id_attr (ms ! 0) = Some ''call_u'' \<and> is_error_result (ms ! 0)"
proof -
  have ne: "[HumanMessage ''q'', AIMessage [] [unknown_call]] \<noteq> []" by simp
  have last: "last [HumanMessage ''q'', AIMessage [] [unknown_call]] = AIMessage [] [unknown_call]"
    by simp
  have i: "0 < length [unknown_call]" by simp
  have u: "\<not> registered (tc_name ([unknown_call] ! 0))"
    by (simp add: unknown_call_def registered_def)
  from unregistered_tool_gets_one_result [OF ne last i u, of "example_env always_tool_llm" "(0, 0)"]
  obtain ms w1 w' where
    run: "tool_node (with_generic_fallback (example_env always_tool_llm)) (0, 0)
     [HumanMessage ''q'', AIMessage [] [unknown_call]] = (Inr ms, w')"
    and len: "length ms = length [unknown_call]"
    and id0: "tool_call_id_attr (ms ! 0) = Some (tc_id ([unknown_call] ! 0))"
    and err: "is_error_result (ms ! 0)"
    by blast
  from len have len': "length ms = 1" by simp
  from id0 have id0': "tool_call_id_attr (ms ! 0) = Some ''call_u''" by (simp add: unknown_call_def)
  show ?thesis
    by (rule exI [of _ ms], rule exI [of _ w']) (intro conjI run len' id0' err)
qed

section \<open>The router\<close>

lemma route_agent_snoc:
  "route_agent (state @ [m]) =
     Inr (case tool_calls_attr m of Some tcs \<Rightarrow> if tcs \<noteq> [] then To_tool_node else END | None \<Rightarrow> END)"
  by (cases state) (simp_all add: route_agent_def split: option.splits)

text \<open>
  Claim C3. \<^verbatim>\<open>route_agent\<close> is a function of the last message of the state alone (it
  takes no collaborator and no world, and the earlier messages do not matter). On every
  state with a last message it returns a route: \<^verbatim>\<open>tool_node\<close> if and only if that message
  is an \<^verbatim>\<open>AIMessage\<close> with at least one tool call, \<^verbatim>\<open>END\<close> otherwise. In particular an
  \<^verbatim>\<open>AIMessage\<close> without tool calls ends the run whatever its content is, and so do the
  messages that have no \<^verbatim>\<open>tool_calls\<close> attribute.
\<close>

theorem route_agent_last_entry:
  "(route_agent (state @ [m]) = Inr To_tool_node \<longleftrightarrow> (\<exists>c tcs. m = AIMessage c tcs \<and> tcs \<noteq> [])) \<and>
   (route_agent (state @ [m]) = Inr END \<longleftrightarrow> \<not> (\<exists>c tcs. m = AIMessage c tcs \<and> tcs \<noteq> [])) \<and>
   route_agent (state @ [AIMessage c []]) = Inr END \<and>
   route_agent (state @ [HumanMessage c]) = Inr END \<and>
   route_agent (state @ [ToolMessage c i]) = Inr END \<and>
   route_agent (state' @ [m]) = route_agent (state @ [m])"
  by (cases m) (simp_all add: route_agent_snoc)

section \<open>The decision node\<close>

text \<open>
  Claim C9. \<^verbatim>\<open>llm_agent_node\<close> gives the chat model the state with the system message in
  front exactly when the state has a single message, as the initial state of a run has;
  otherwise it gives it the state as it is. When the chat model answers, the node
  returns that one answer as an \<^verbatim>\<open>AIMessage\<close>, and the step of the graph appends it, and
  nothing else, to the state: the system message does not enter the state.
\<close>

theorem llm_agent_node_appends_one_answer:
  assumes "llm_with_tools env w (if length state = 1 then system_message # state else state) = (Inr (c, tcs), w')"
  shows "llm_agent_node env w state = (Inr [AIMessage c tcs], w') \<and>
         add_messages state [AIMessage c tcs] = state @ [AIMessage c tcs] \<and>
         (\<exists>steps r w''. app_run env (Suc k) Llm_agent_node w state =
            (((Llm_agent_node, [AIMessage c tcs], state @ [AIMessage c tcs]) # steps, r), w'')) \<and>
         length (initial_state query) = 1"
proof -
  have node: "llm_agent_node env w state = (Inr [AIMessage c tcs], w')"
    using assms by (auto simp: llm_agent_node_def llm_input_def split: if_splits)
  have "\<exists>steps r w''. app_run env (Suc k) Llm_agent_node w state =
            (((Llm_agent_node, [AIMessage c tcs], state @ [AIMessage c tcs]) # steps, r), w'')"
    by (auto simp: node add_messages_def route_agent_snoc Let_def split: prod.splits)
  with node show ?thesis by (simp add: add_messages_def initial_state_def)
qed

theorem llm_agent_node_appends_one_answer_witness:
  "llm_agent_node (example_env echo_llm) (0, 0) [HumanMessage ''q''] =
     (Inr [AIMessage system_prompt []], (1, 0)) \<and>
   llm_agent_node (example_env echo_llm) (1, 0) [HumanMessage ''q'', AIMessage ''a'' []] =
     (Inr [AIMessage ''q'' []], (2, 0))"
proof -
  have first: "llm_with_tools (example_env echo_llm) (0, 0)
      (if length [HumanMessage ''q''] = 1 then system_message # [HumanMessage ''q''] else [HumanMessage ''q'']) =
      (Inr (system_prompt, []), (1, 0))"
    by (simp add: example_env_def with_generic_fallback_def echo_llm_def system_message_def)
  have later: "llm_with_tools (example_env echo_llm) (1, 0)
      (if length [HumanMessage ''q'', AIMessage ''a'' []] = 1
       then system_message # [HumanMessage ''q'', AIMessage ''a'' []]
       else [HumanMessage ''q'', AIMessage ''a'' []]) =
      (Inr (''q'', []), (2, 0))"
    by (simp add: example_env_def with_generic_fallback_def echo_llm_def)
  from llm_agent_node_appends_one_answer [OF first]
  have one: "llm_agent_node (example_env echo_llm) (0, 0) [HumanMessage ''q''] =
     (Inr [AIMessage system_prompt []], (1, 0))"
    by (rule conjunct1)
  from llm_agent_node_appends_one_answer [OF later]
  have two: "llm_agent_node (example_env echo_llm) (1, 0) [HumanMessage ''q'', AIMessage ''a'' []] =
     (Inr [AIMessage ''q'' []], (2, 0))"
    by (rule conjunct1)
  from one two show ?thesis by (rule conjI)
qed

section \<open>Runs of the graph\<close>

lemma llm_step:
  assumes "run_node env Llm_agent_node w state = (Inr update, w1)"
  shows "\<exists>c tcs. update = [AIMessage c tcs] \<and>
           next_node Llm_agent_node (state @ update) = Inr (if tcs \<noteq> [] then Some Tool_node else None)"
proof -
  from assms obtain c tcs where "update = [AIMessage c tcs]"
    by (auto simp: llm_agent_node_def split: prod.splits sum.splits)
  then show ?thesis by (simp add: route_agent_snoc)
qed

lemma tool_step:
  assumes contract: "one_result_per_request env" and ready: "tool_ready Tool_node state"
    and run: "run_node env Tool_node w state = (Inr update, w1)"
  shows "update \<noteq> [] \<and> list_all is_ToolMessage update"
proof -
  from ready obtain c tcs where ne: "state \<noteq> []" and last: "last state = AIMessage c tcs"
    and tcs: "tcs \<noteq> []"
    by (auto simp: tool_ready_def)
  from tool_node_result_ids [OF contract ne last, of w] run
  have ids: "result_ids update = request_ids tcs" by auto
  then have "length update = length tcs" by (rule ids_give_length)
  with tcs have "update \<noteq> []" by auto
  with ids_give_tool_messages [OF ids] show ?thesis by simp
qed

lemma step_appends:
  assumes contract: "one_result_per_request env" and ready: "tool_ready n state"
    and run: "run_node env n w state = (Inr update, w1)"
  shows "appended_kind n update \<and>
         (\<exists>nxt. next_node n (state @ update) = Inr nxt \<and>
            (\<forall>n'. nxt = Some n' \<longrightarrow> tool_ready n' (state @ update)))"
proof (cases n)
  case Llm_agent_node
  with run have run': "run_node env Llm_agent_node w state = (Inr update, w1)" by simp
  from llm_step [OF run'] obtain c tcs where upd: "update = [AIMessage c tcs]"
    and nxt: "next_node Llm_agent_node (state @ update) = Inr (if tcs \<noteq> [] then Some Tool_node else None)"
    by auto
  have kind: "appended_kind n update" by (simp add: upd Llm_agent_node)
  show ?thesis
  proof (cases "tcs = []")
    case True
    with nxt have "next_node n (state @ update) = Inr None" by (simp add: Llm_agent_node)
    with kind show ?thesis by simp
  next
    case False
    with nxt have n: "next_node n (state @ update) = Inr (Some Tool_node)" by (simp add: Llm_agent_node)
    from False have "tool_ready Tool_node (state @ update)" by (simp add: tool_ready_def upd)
    with kind n show ?thesis by simp
  qed
next
  case Tool_node
  with ready run have ready': "tool_ready Tool_node state"
    and run': "run_node env Tool_node w state = (Inr update, w1)" by simp_all
  from tool_step [OF contract ready' run']
  have "update \<noteq> [] \<and> list_all is_ToolMessage update" .
  with Tool_node show ?thesis by (simp add: tool_ready_def)
qed

lemma app_run_append_only:
  assumes contract: "one_result_per_request env"
  shows "tool_ready n state \<Longrightarrow> app_run env k n w state = ((steps, r), w') \<Longrightarrow>
         append_only state steps \<and> (\<forall>final. r = Inr final \<longrightarrow> final = state_after state steps)"
proof (induction k arbitrary: n w state steps r w')
  case 0
  then show ?case by auto
next
  case (Suc k)
  obtain res w1 where node: "run_node env n w state = (res, w1)" by (cases "run_node env n w state")
  show ?case
  proof (cases res)
    case (Inl e)
    with Suc.prems(2) node show ?thesis by auto
  next
    case (Inr update)
    from step_appends [OF contract Suc.prems(1) node [unfolded Inr]]
    obtain nxt where kind: "appended_kind n update"
      and nxt: "next_node n (state @ update) = Inr nxt"
      and ready: "\<forall>n'. nxt = Some n' \<longrightarrow> tool_ready n' (state @ update)"
      by blast
    from kind have grow: "length state < length (state @ update)" by (cases n) auto
    show ?thesis
    proof (cases nxt)
      case None
      with Suc.prems(2) node Inr nxt have "steps = [(n, update, state @ update)]" and "r = Inr (state @ update)"
        by (simp_all add: Let_def add_messages_def)
      with kind grow show ?thesis by simp
    next
      case (Some n')
      obtain steps' r' w2 where rest: "app_run env k n' w1 (state @ update) = ((steps', r'), w2)"
        by (metis surj_pair)
      with Suc.prems(2) node Inr nxt Some
      have steps: "steps = (n, update, state @ update) # steps'" and r: "r = r'"
        by (simp_all add: Let_def add_messages_def)
      from ready Some have "tool_ready n' (state @ update)" by simp
      from Suc.IH [OF this rest]
      have "append_only (state @ update) steps' \<and>
          (\<forall>final. r' = Inr final \<longrightarrow> final = state_after (state @ update) steps')" .
      with kind grow steps r show ?thesis by simp
    qed
  qed
qed

text \<open>
  Claim C6. In every run of the graph from the initial state of a query the state is
  append-only. Each step leaves the state before it in place and adds what the node
  returned at the end, so the state gets strictly longer with every step; what is added
  is the one \<^verbatim>\<open>AIMessage\<close> of the chat model after \<^verbatim>\<open>llm_agent_node\<close> and the
  \<^verbatim>\<open>ToolMessage\<close>s of the batch after \<^verbatim>\<open>tool_node\<close>; and the final state of a run that ends
  is the state after its last step. (For a batch with an unregistered name the added
  messages are those of the prebuilt node, which is assumed to answer every request.)
\<close>

theorem conversation_is_append_only:
  assumes "one_result_per_request env"
    and "app_run env k entry_point w (initial_state query) = ((steps, r), w')"
  shows "append_only (initial_state query) steps \<and>
         (\<forall>final. r = Inr final \<longrightarrow> final = state_after (initial_state query) steps)"
proof -
  have "tool_ready entry_point (initial_state query)"
    by (simp add: tool_ready_def entry_point_def)
  from app_run_append_only [OF assms(1) this assms(2)] show ?thesis .
qed

lemma example_run:
  "app_run (example_env (one_batch_llm [web_call, wiki_call])) 25 entry_point (0, 0) (initial_state ''q'') =
     ((example_steps, Inr example_final), (2, 2))"
  by code_simp

theorem conversation_is_append_only_witness:
  "append_only [HumanMessage ''q''] example_steps \<and>
   example_final = state_after [HumanMessage ''q''] example_steps \<and>
   length example_steps = 3 \<and> length example_final = 5"
proof -
  have contract: "one_result_per_request (example_env (one_batch_llm [web_call, wiki_call]))"
    unfolding example_env_def by (rule generic_one_result_per_request)
  from conversation_is_append_only [OF contract example_run]
  have "append_only (initial_state ''q'') example_steps \<and>
      example_final = state_after (initial_state ''q'') example_steps"
    by simp
  then show ?thesis
    by (simp add: initial_state_def example_steps_def example_final_def example_tool_results_def)
qed

section \<open>The step limit of \<^verbatim>\<open>run_research_agent\<close>\<close>

lemma stream_loop_fuel:
  "step_count \<le> max_steps \<Longrightarrow>
   stream_loop env k n w state step_count =
     stream_loop env (min k (Suc max_steps - step_count)) n w state step_count"
proof (induction k arbitrary: n w state step_count)
  case 0
  show ?case by simp
next
  case (Suc k)
  from Suc.prems have m: "min (Suc k) (Suc max_steps - step_count) = Suc (min k (max_steps - step_count))"
    by simp
  have rec: "\<And>n' w' state'. \<not> max_steps < Suc step_count \<Longrightarrow>
      stream_loop env k n' w' state' (Suc step_count) =
      stream_loop env (min k (max_steps - step_count)) n' w' state' (Suc step_count)"
  proof -
    fix n' w' state'
    assume "\<not> max_steps < Suc step_count"
    then have le: "Suc step_count \<le> max_steps" by simp
    from Suc.IH [OF le, of n' w' state'] show "stream_loop env k n' w' state' (Suc step_count) =
      stream_loop env (min k (max_steps - step_count)) n' w' state' (Suc step_count)"
      by simp
  qed
  show ?case
    unfolding m
    by (simp add: Let_def rec split: prod.splits sum.splits option.splits)
qed

lemma always_tool_llm_step:
  assumes "always_requests_tool env"
  shows "\<exists>c tcs w1. run_node env Llm_agent_node w state = (Inr [AIMessage c tcs], w1) \<and>
           next_node Llm_agent_node (state @ [AIMessage c tcs]) = Inr (Some Tool_node) \<and>
           registered_ready Tool_node (state @ [AIMessage c tcs])"
proof -
  from assms obtain c tcs w1 where
    llm: "llm_with_tools env w (llm_input state) = (Inr (c, tcs), w1)" and ne: "tcs \<noteq> []"
    and reg: "list_all (\<lambda>t. registered (tc_name t)) tcs"
    unfolding always_requests_tool_def by metis
  from llm have run: "run_node env Llm_agent_node w state = (Inr [AIMessage c tcs], w1)"
    by (simp add: llm_agent_node_def)
  from ne have nxt: "next_node Llm_agent_node (state @ [AIMessage c tcs]) = Inr (Some Tool_node)"
    by (simp add: route_agent_snoc)
  from reg have ready: "registered_ready Tool_node (state @ [AIMessage c tcs])"
    by (simp add: registered_ready_def)
  show ?thesis
    by (rule exI [of _ c], rule exI [of _ tcs], rule exI [of _ w1]) (intro conjI run nxt ready)
qed

lemma registered_tool_step:
  assumes "registered_ready Tool_node state"
  shows "\<exists>ms w1. run_node env Tool_node w state = (Inr ms, w1)"
proof -
  from assms obtain c tcs where ne: "state \<noteq> []" and last: "last state = AIMessage c tcs"
    and reg: "list_all (\<lambda>t. registered (tc_name t)) tcs"
    by (auto simp: registered_ready_def)
  from tool_node_registered [OF ne last reg, of env w] show ?thesis by simp
qed

lemma always_tool_step:
  assumes tool: "always_requests_tool env" and ready: "registered_ready n state"
  shows "\<exists>update w1. run_node env n w state = (Inr update, w1) \<and>
           next_node n (state @ update) = Inr (Some (alternate n)) \<and>
           registered_ready (alternate n) (state @ update)"
proof (cases n)
  case Llm_agent_node
  from always_tool_llm_step [OF tool, of w state] obtain c tcs w1 where
    run: "run_node env Llm_agent_node w state = (Inr [AIMessage c tcs], w1)"
    and nxt: "next_node Llm_agent_node (state @ [AIMessage c tcs]) = Inr (Some Tool_node)"
    and rdy: "registered_ready Tool_node (state @ [AIMessage c tcs])"
    by auto
  show ?thesis
    unfolding Llm_agent_node alternate.simps
    by (rule exI [of _ "[AIMessage c tcs]"], rule exI [of _ w1]) (intro conjI run nxt rdy)
next
  case Tool_node
  with ready have "registered_ready Tool_node state" by simp
  from registered_tool_step [OF this, of env w] obtain ms w1 where
    run: "run_node env Tool_node w state = (Inr ms, w1)" by auto
  have nxt: "next_node Tool_node (state @ ms) = Inr (Some Llm_agent_node)" by simp
  have rdy: "registered_ready Llm_agent_node (state @ ms)" by (simp add: registered_ready_def)
  show ?thesis
    unfolding Tool_node alternate.simps
    by (rule exI [of _ ms], rule exI [of _ w1]) (intro conjI run nxt rdy)
qed

lemma stream_loop_always_tool:
  assumes tool: "always_requests_tool env"
  shows "registered_ready n state \<Longrightarrow> step_count + r = max_steps \<Longrightarrow> r < k \<Longrightarrow>
         \<exists>w'. stream_loop env k n w state step_count =
                 ((steps_until_limit (Suc r) step_count n, None), w')"
proof (induction r arbitrary: k n w state step_count)
  case 0
  from "0.prems"(3) obtain k' where k: "k = Suc k'" by (cases k) auto
  from always_tool_step [OF tool "0.prems"(1), of w] obtain update w1 where
    run: "run_node env n w state = (Inr update, w1)" by auto
  from "0.prems"(2) have "max_steps < step_count + 1" by simp
  with run show ?case by (simp add: k Let_def)
next
  case (Suc r)
  from Suc.prems(3) obtain k' where k: "k = Suc k'" and r: "r < k'" by (cases k) auto
  from always_tool_step [OF tool Suc.prems(1), of w] obtain update w1 where
    run: "run_node env n w state = (Inr update, w1)"
    and nxt: "next_node n (state @ update) = Inr (Some (alternate n))"
    and rdy: "registered_ready (alternate n) (state @ update)"
    by auto
  from Suc.prems(2) have cont: "\<not> max_steps < step_count + 1" and sc: "Suc step_count + r = max_steps"
    by simp_all
  from Suc.IH [OF rdy sc r, of w1] obtain w' where
    rest: "stream_loop env k' (alternate n) w1 (state @ update) (Suc step_count) =
      ((steps_until_limit (Suc r) (Suc step_count) (alternate n), None), w')"
    by auto
  have "stream_loop env k n w state step_count =
      ((steps_until_limit (Suc (Suc r)) step_count n, None), w')"
    using cont by (simp add: k run nxt rest Let_def add_messages_def)
  then show ?case by (rule exI)
qed

text \<open>
  Claim C1, amended. With a chat model that always asks for registered tools and a
  recursion limit of at least \<open>max_steps\<close>, the streamed pass of \<^verbatim>\<open>run_research_agent\<close>
  stops, without an exception, with the warning that the maximum of steps is reached:
  its step counter starts at 1 and grows by one with every executed node, the chat
  model's and the tools' alike, so the warning comes after ten node executions, five of
  them calls of the chat model. The pass executes at most \<open>max_steps\<close> nodes: a larger
  budget of node executions changes nothing (for any chat model, by \<open>stream_loop_fuel\<close>).
\<close>

theorem stream_pass_stops_at_max_steps:
  assumes "always_requests_tool env" and "max_steps \<le> recursion_limit env"
  shows "(\<exists>w'. stream_loop env (recursion_limit env) entry_point w (initial_state query) 1 =
            (([Step 1 Llm_agent_node, Step 2 Tool_node, Step 3 Llm_agent_node, Step 4 Tool_node,
               Step 5 Llm_agent_node, Step 6 Tool_node, Step 7 Llm_agent_node, Step 8 Tool_node,
               Step 9 Llm_agent_node, Step 10 Tool_node, MaxStepsWarning], None), w')) \<and>
         stream_loop env (recursion_limit env) entry_point w (initial_state query) 1 =
           stream_loop env max_steps entry_point w (initial_state query) 1"
proof -
  have ready: "registered_ready entry_point (initial_state query)"
    by (simp add: registered_ready_def entry_point_def)
  have sc: "1 + 9 = max_steps" by (simp add: max_steps_def)
  from assms(2) have k: "9 < recursion_limit env" by (simp add: max_steps_def)
  from stream_loop_always_tool [OF assms(1) ready sc k, of w] obtain w' where
    "stream_loop env (recursion_limit env) entry_point w (initial_state query) 1 =
       ((steps_until_limit (Suc 9) 1 entry_point, None), w')"
    by auto
  moreover have "steps_until_limit (Suc 9) 1 entry_point =
      [Step 1 Llm_agent_node, Step 2 Tool_node, Step 3 Llm_agent_node, Step 4 Tool_node,
       Step 5 Llm_agent_node, Step 6 Tool_node, Step 7 Llm_agent_node, Step 8 Tool_node,
       Step 9 Llm_agent_node, Step 10 Tool_node, MaxStepsWarning]"
    by (simp add: entry_point_def eval_nat_numeral)
  ultimately have first: "\<exists>w'. stream_loop env (recursion_limit env) entry_point w (initial_state query) 1 =
            (([Step 1 Llm_agent_node, Step 2 Tool_node, Step 3 Llm_agent_node, Step 4 Tool_node,
               Step 5 Llm_agent_node, Step 6 Tool_node, Step 7 Llm_agent_node, Step 8 Tool_node,
               Step 9 Llm_agent_node, Step 10 Tool_node, MaxStepsWarning], None), w')"
    by simp
  have "1 \<le> max_steps" by (simp add: max_steps_def)
  from stream_loop_fuel [OF this, of env "recursion_limit env" entry_point w "initial_state query"] assms(2)
  have second: "stream_loop env (recursion_limit env) entry_point w (initial_state query) 1 =
           stream_loop env max_steps entry_point w (initial_state query) 1"
    by (simp add: min_def)
  from first second show ?thesis by (rule conjI)
qed

lemma always_tool_llm_always_requests_tool: "always_requests_tool (example_env always_tool_llm)"
  by (simp add: always_requests_tool_def example_env_def with_generic_fallback_def
      always_tool_llm_def wiki_call_def registered_def)

theorem stream_pass_stops_at_max_steps_witness:
  "\<exists>w'. stream_loop (example_env always_tool_llm) 25 entry_point (0, 0) (initial_state ''q'') 1 =
      (([Step 1 Llm_agent_node, Step 2 Tool_node, Step 3 Llm_agent_node, Step 4 Tool_node,
         Step 5 Llm_agent_node, Step 6 Tool_node, Step 7 Llm_agent_node, Step 8 Tool_node,
         Step 9 Llm_agent_node, Step 10 Tool_node, MaxStepsWarning], None), w')"
proof -
  have limit: "recursion_limit (example_env always_tool_llm) = 25"
    by (simp add: example_env_def with_generic_fallback_def)
  then have enough: "max_steps \<le> recursion_limit (example_env always_tool_llm)"
    by (simp add: max_steps_def)
  from stream_pass_stops_at_max_steps [OF always_tool_llm_always_requests_tool enough, of "(0, 0)" "''q''"]
  show ?thesis unfolding limit by (rule conjunct1)
qed

text \<open>
  Claim C1 as stated does not hold. With a chat model that asks for the encyclopedia on
  every call and a recursion limit of 25, \<^verbatim>\<open>run_research_agent\<close> prints the warning after
  ten steps and then runs the graph a second time, with \<^verbatim>\<open>app.invoke\<close>, until the runtime
  raises its recursion error: the chat model has answered 18 calls and the tools 17
  when the function returns, more than \<open>max_steps\<close>.
\<close>

theorem run_research_agent_exceeds_max_steps_counterexample:
  "run_research_agent (example_env always_tool_llm) (0, 0) ''q'' =
     (([Step 1 Llm_agent_node, Step 2 Tool_node, Step 3 Llm_agent_node, Step 4 Tool_node,
        Step 5 Llm_agent_node, Step 6 Tool_node, Step 7 Llm_agent_node, Step 8 Tool_node,
        Step 9 Llm_agent_node, Step 10 Tool_node, MaxStepsWarning,
        ErrorGettingFinalAnswer GraphRecursionError], None), (18, 17)) \<and>
   \<not> 18 \<le> max_steps"
  by code_simp

section \<open>The verbose variant\<close>

lemma stream_loop_verbose_app_run:
  "app_run env k n w state = ((steps, r), w') \<Longrightarrow>
   stream_loop_verbose env k n w state = ((map notification steps, raised r), w')"
proof (induction k arbitrary: n w state steps r w')
  case 0
  then show ?case by auto
next
  case (Suc k)
  obtain res w1 where node: "run_node env n w state = (res, w1)" by (cases "run_node env n w state")
  show ?case
  proof (cases res)
    case (Inl e)
    with Suc.prems node show ?thesis by auto
  next
    case (Inr update)
    show ?thesis
    proof (cases "next_node n (state @ update)")
      case (Inl e)
      with Suc.prems node Inr show ?thesis by (auto simp: Let_def add_messages_def)
    next
      case nxt: (Inr next_opt)
      show ?thesis
      proof (cases next_opt)
        case None
        with Suc.prems node Inr nxt show ?thesis by (auto simp: Let_def add_messages_def)
      next
        case (Some n')
        obtain steps' r' w2 where rest: "app_run env k n' w1 (state @ update) = ((steps', r'), w2)"
          by (metis surj_pair)
        from Suc.IH [OF rest]
        have "stream_loop_verbose env k n' w1 (state @ update) = ((map notification steps', raised r'), w2)" .
        with Suc.prems node Inr nxt Some rest show ?thesis by (auto simp: Let_def add_messages_def)
      qed
    qed
  qed
qed

lemma stream_loop_no_exception:
  "app_run env k n w state = ((steps, Inr final), w') \<Longrightarrow>
   \<exists>outs w''. stream_loop env k n w state step_count = ((outs, None), w'')"
proof (induction k arbitrary: n w state steps step_count w')
  case 0
  then show ?case by simp
next
  case (Suc k)
  obtain res w1 where node: "run_node env n w state = (res, w1)" by (cases "run_node env n w state")
  show ?case
  proof (cases res)
    case (Inl e)
    with Suc.prems node show ?thesis by auto
  next
    case (Inr update)
    show ?thesis
    proof (cases "max_steps < step_count + 1")
      case True
      with node Inr show ?thesis by (simp add: Let_def)
    next
      case False
      show ?thesis
      proof (cases "next_node n (state @ update)")
        case (Inl e)
        with Suc.prems node Inr show ?thesis by (auto simp: Let_def add_messages_def)
      next
        case nxt: (Inr next_opt)
        show ?thesis
        proof (cases next_opt)
          case None
          with False node Inr nxt show ?thesis by (simp add: Let_def add_messages_def)
        next
          case (Some n')
          obtain steps' r' w2 where rest: "app_run env k n' w1 (state @ update) = ((steps', r'), w2)"
            by (metis surj_pair)
          with Suc.prems node Inr nxt Some have "r' = Inr final"
            by (simp add: Let_def add_messages_def)
          with rest have "app_run env k n' w1 (state @ update) = ((steps', Inr final), w2)" by simp
          from Suc.IH [OF this, of "step_count + 1"] obtain outs w'' where
            "stream_loop env k n' w1 (state @ update) (step_count + 1) = ((outs, None), w'')"
            by auto
          with False node Inr nxt Some show ?thesis by (simp add: Let_def add_messages_def)
        qed
      qed
    qed
  qed
qed

lemma app_run_last_step:
  "app_run env k n w state = ((steps, Inr final), w') \<Longrightarrow>
   \<exists>c. steps \<noteq> [] \<and> last steps = (Llm_agent_node, [AIMessage c []], final) \<and>
        final \<noteq> [] \<and> last final = AIMessage c []"
proof (induction k arbitrary: n w state steps w')
  case 0
  then show ?case by simp
next
  case (Suc k)
  obtain res w1 where node: "run_node env n w state = (res, w1)" by (cases "run_node env n w state")
  show ?case
  proof (cases res)
    case (Inl e)
    with Suc.prems node show ?thesis by auto
  next
    case (Inr update)
    show ?thesis
    proof (cases "next_node n (state @ update)")
      case (Inl e)
      with Suc.prems node Inr show ?thesis by (auto simp: Let_def add_messages_def)
    next
      case nxt: (Inr next_opt)
      show ?thesis
      proof (cases next_opt)
        case None
        with nxt have n: "n = Llm_agent_node" by (cases n) auto
        with node Inr obtain c tcs where upd: "update = [AIMessage c tcs]"
          using llm_step [of env w state update w1] by auto
        with nxt None n have "tcs = []" by (auto simp: route_agent_snoc split: if_splits)
        with Suc.prems node Inr nxt None n upd show ?thesis
          by (auto simp: Let_def add_messages_def)
      next
        case (Some n')
        obtain steps' r' w2 where rest: "app_run env k n' w1 (state @ update) = ((steps', r'), w2)"
          by (metis surj_pair)
        with Suc.prems node Inr nxt Some have r: "r' = Inr final"
          and steps: "steps = (n, update, state @ update) # steps'"
          by (simp_all add: Let_def add_messages_def)
        from rest r have "app_run env k n' w1 (state @ update) = ((steps', Inr final), w2)" by simp
        from Suc.IH [OF this] obtain c where
          "steps' \<noteq> []" "last steps' = (Llm_agent_node, [AIMessage c []], final)"
          "final \<noteq> []" "last final = AIMessage c []"
          by auto
        with steps show ?thesis by auto
      qed
    qed
  qed
qed

text \<open>
  Claim C8, amended. Both entry points stream one run of the graph and then take the
  final answer from a second run, made with \<^verbatim>\<open>app.invoke\<close> on the initial state. When
  the collaborators have no state outside the program (each answer depends on the
  arguments of the call only) and the run for the query ends normally, the verbose
  variant prints one notification for every step of the run and then the final
  response, the plain entry point prints the same text as its answer, neither raises,
  and that answer is the content of the \<^verbatim>\<open>AIMessage\<close> in the last notification.
\<close>

theorem same_answer_without_external_state:
  fixes env :: "unit env"
  assumes "app_run env (recursion_limit env) entry_point () (initial_state query) = ((steps, Inr final), w')"
  shows "\<exists>c outs. last steps = (Llm_agent_node, [AIMessage c []], final) \<and>
           run_research_agent_verbose env () query =
             ((map notification steps @ [FinalResponse c], None), ()) \<and>
           run_research_agent env () query = ((outs @ [Answer c], None), ())"
proof -
  from app_run_last_step [OF assms] obtain c where
    lst: "last steps = (Llm_agent_node, [AIMessage c []], final)"
    and ne: "final \<noteq> []" and ans: "last final = AIMessage c []"
    by auto
  from ne obtain m ms where final: "final = m # ms" by (cases final) auto
  have invoke: "app_invoke env () (initial_state query) = (Inr final, ())"
    using assms by (simp add: app_invoke_def)
  have "stream_loop_verbose env (recursion_limit env) entry_point () (initial_state query) =
      ((map notification steps, None), ())"
    using stream_loop_verbose_app_run [OF assms] by simp
  with invoke ans have verbose: "run_research_agent_verbose env () query =
      ((map notification steps @ [FinalResponse c], None), ())"
    by (simp add: run_research_agent_verbose_def final)
  from stream_loop_no_exception [OF assms, of 1] obtain outs where
    "stream_loop env (recursion_limit env) entry_point () (initial_state query) 1 = ((outs, None), ())"
    by auto
  with invoke ans have plain: "run_research_agent env () query = ((outs @ [Answer c], None), ())"
    by (simp add: run_research_agent_def final)
  show ?thesis
    by (rule exI [of _ c], rule exI [of _ outs]) (intro conjI lst verbose plain)
qed

lemma pure_run:
  "app_run pure_env (recursion_limit pure_env) entry_point () (initial_state ''q'') =
     ((example_steps, Inr example_final), ())"
  by code_simp

theorem same_answer_without_external_state_witness:
  "run_research_agent_verbose pure_env () ''q'' =
     (([Update Llm_agent_node [AIMessage [] [web_call, wiki_call]],
        Update Tool_node example_tool_results,
        Update Llm_agent_node [AIMessage ''Paris'' []],
        FinalResponse ''Paris''], None), ()) \<and>
   (\<exists>outs. run_research_agent pure_env () ''q'' = ((outs @ [Answer ''Paris''], None), ()))"
proof -
  from same_answer_without_external_state [OF pure_run] obtain c outs where
    lst: "last example_steps = (Llm_agent_node, [AIMessage c []], example_final)"
    and verbose: "run_research_agent_verbose pure_env () ''q'' =
       ((map notification example_steps @ [FinalResponse c], None), ())"
    and plain: "run_research_agent pure_env () ''q'' = ((outs @ [Answer c], None), ())"
    by auto
  from lst have c: "c = ''Paris''" by (simp add: example_steps_def)
  have one: "run_research_agent_verbose pure_env () ''q'' =
     (([Update Llm_agent_node [AIMessage [] [web_call, wiki_call]],
        Update Tool_node example_tool_results,
        Update Llm_agent_node [AIMessage ''Paris'' []],
        FinalResponse ''Paris''], None), ())"
    unfolding verbose c example_steps_def by simp
  have two: "\<exists>outs. run_research_agent pure_env () ''q'' = ((outs @ [Answer ''Paris''], None), ())"
    by (rule exI [of _ outs]) (rule plain [unfolded c])
  from one two show ?thesis by (rule conjI)
qed

lemma drifting_verbose:
  "(case run_research_agent_verbose (example_env drifting_llm) (0, 0) ''q'' of
      ((outs, e), w) \<Rightarrow> (final_answer outs, streamed_answer outs, length outs, e, w)) =
   (Some ''B'', Some ''A'', 14, None, (8, 6))"
  by code_simp

lemma drifting_plain:
  "(case run_research_agent (example_env drifting_llm) (0, 0) ''q'' of
      ((outs, e), w) \<Rightarrow> (final_answer outs, length outs, e, w)) =
   (Some ''A'', 12, None, (7, 6))"
  by code_simp

text \<open>
  Claim C8 as stated does not hold. With a chat model whose answers drift from call to
  call (tools on its first six calls, the answer \<open>A\<close> on the seventh, \<open>B\<close> afterwards),
  the verbose variant streams a run that ends with the answer \<open>A\<close> and then reports
  \<open>B\<close>, the answer of the second run it makes with \<^verbatim>\<open>app.invoke\<close>; the plain entry point,
  whose streamed pass stops after ten steps, reports \<open>A\<close> for the same query. Both return
  without an exception.
\<close>

theorem verbose_answer_counterexample:
  "final_answer (fst (fst (run_research_agent_verbose (example_env drifting_llm) (0, 0) ''q''))) = Some ''B'' \<and>
   streamed_answer (fst (fst (run_research_agent_verbose (example_env drifting_llm) (0, 0) ''q''))) = Some ''A'' \<and>
   final_answer (fst (fst (run_research_agent (example_env drifting_llm) (0, 0) ''q''))) = Some ''A'' \<and>
   final_answer (fst (fst (run_research_agent_verbose (example_env drifting_llm) (0, 0) ''q''))) \<noteq>
     final_answer (fst (fst (run_research_agent (example_env drifting_llm) (0, 0) ''q''))) \<and>
   final_answer (fst (fst (run_research_agent_verbose (example_env drifting_llm) (0, 0) ''q''))) \<noteq>
     streamed_answer (fst (fst (run_research_agent_verbose (example_env drifting_llm) (0, 0) ''q'')))"
proof -
  obtain outs e w where v: "run_research_agent_verbose (example_env drifting_llm) (0, 0) ''q'' = ((outs, e), w)"
    by (metis surj_pair)
  obtain outs' e' w' where p: "run_research_agent (example_env drifting_llm) (0, 0) ''q'' = ((outs', e'), w')"
    by (metis surj_pair)
  from drifting_verbose have "final_answer outs = Some ''B''" and "streamed_answer outs = Some ''A''"
    unfolding v by simp_all
  moreover from drifting_plain have "final_answer outs' = Some ''A''"
    unfolding p by simp
  ultimately show ?thesis unfolding v p by simp
qed

end
